theory Spec2Isabelle
  imports Complex_Main "HOL-Library.Sublist"
begin

section \<open>The decimal engine behind \<open>PreciseDecimal\<close>\<close>

text \<open>
  \<open>index.ts\<close> builds every magnitude with
  \<open>PreciseDecimal = Decimal.clone({ defaults: true, toExpPos: 33 })\<close>.
  The engine (decimal.js) is an external dependency of the repository; it is modelled here
  from its documented behaviour under the configuration that line pins: results of
  arithmetic are rounded to \<open>precision = 20\<close> significant digits with rounding mode
  \<open>ROUND_HALF_UP\<close>, the constructor does not round, exponents range over
  \<open>[-9e15, 9e15]\<close>, and \<open>toString\<close> switches to exponential notation at exponents
  \<open>\<le> -7\<close> and \<open>\<ge> 33\<close>.

  A finite value is sign, coefficient and exponent: \<open>Fin s c e\<close> stands for
  \<open>(if s then -1 else 1) * c * 10^e\<close>. The engine keeps the coefficient without trailing
  zeros, and so does every operation below. Zero keeps its sign, as in the engine.
\<close>

datatype Decimal = Fin bool nat int | NaN | Infinity bool

definition precision :: nat where
  "precision = 20"

definition maxE :: int where
  "maxE = 9000000000000000"

definition minE :: int where
  "minE = - 9000000000000000"

definition toExpNeg :: int where
  "toExpNeg = - 7"

definition toExpPos :: int where
  "toExpPos = 33"

text \<open>Number of decimal digits of a coefficient (1 for zero).\<close>

fun ndigits :: "nat \<Rightarrow> nat" where
  "ndigits n = (if n < 10 then 1 else Suc (ndigits (n div 10)))"

declare ndigits.simps [simp del]

text \<open>Dropping the trailing zeros of a non-zero coefficient.\<close>

function stripz :: "nat \<Rightarrow> int \<Rightarrow> nat \<times> int" where
  "stripz c e = (if c \<noteq> 0 \<and> c mod 10 = 0 then stripz (c div 10) (e + 1) else (c, e))"
  by pat_completeness auto
termination
  by (relation "measure (\<lambda>(c, e). c)") auto

declare stripz.simps [simp del]

text \<open>Rounding a coefficient to \<open>precision\<close> significant digits, half up on the
  magnitude (\<open>ROUND_HALF_UP\<close> rounds ties away from zero).\<close>

definition roundsd :: "nat \<Rightarrow> int \<Rightarrow> nat \<times> int" where
  "roundsd c e =
     (let d = ndigits c in
      if d \<le> precision then (c, e)
      else let k = d - precision; q = c div 10 ^ k; r = c mod 10 ^ k
           in (if 10 ^ k \<le> 2 * r then q + 1 else q, e + int k))"

text \<open>The exponent of the leading digit, which the engine compares with its range.\<close>

definition sciexp :: "nat \<Rightarrow> int \<Rightarrow> int" where
  "sciexp c e = e + int (ndigits c) - 1"

text \<open>The range check of the constructor and of \<open>finalise\<close>: overflow to infinity,
  underflow to zero.\<close>

definition checkRange :: "bool \<Rightarrow> nat \<Rightarrow> int \<Rightarrow> Decimal" where
  "checkRange s c e =
     (if c = 0 then Fin s 0 0
      else if maxE < sciexp c e then Infinity s
      else if sciexp c e < minE then Fin s 0 0
      else Fin s c e)"

text \<open>Building an engine value from an exact one without rounding (the constructor).\<close>

definition mkDecimal :: "bool \<Rightarrow> nat \<Rightarrow> int \<Rightarrow> Decimal" where
  "mkDecimal s c e = (case stripz c e of (c', e') \<Rightarrow> checkRange s c' e')"

text \<open>\<open>finalise\<close>: round to the precision, then check the range.\<close>

definition finalise :: "bool \<Rightarrow> nat \<Rightarrow> int \<Rightarrow> Decimal" where
  "finalise s c e =
     (case stripz c e of (c1, e1) \<Rightarrow>
      case roundsd c1 e1 of (c2, e2) \<Rightarrow>
      case stripz c2 e2 of (c3, e3) \<Rightarrow> checkRange s c3 e3)"

definition sval :: "bool \<Rightarrow> nat \<Rightarrow> int" where
  "sval s c = (if s then - int c else int c)"

text \<open>Addition: exact, then \<open>finalise\<close>. A zero sum is \<open>-0\<close> only when both operands
  are negative (zeros).\<close>

fun dec_add :: "Decimal \<Rightarrow> Decimal \<Rightarrow> Decimal" where
  "dec_add NaN _ = NaN"
| "dec_add _ NaN = NaN"
| "dec_add (Infinity s) (Infinity t) = (if s = t then Infinity s else NaN)"
| "dec_add (Infinity s) _ = Infinity s"
| "dec_add _ (Infinity t) = Infinity t"
| "dec_add (Fin s1 c1 e1) (Fin s2 c2 e2) =
     (let e = min e1 e2;
          z = sval s1 c1 * 10 ^ nat (e1 - e) + sval s2 c2 * 10 ^ nat (e2 - e)
      in if z = 0 then Fin (s1 \<and> s2) 0 0 else finalise (z < 0) (nat \<bar>z\<bar>) e)"

fun dec_neg :: "Decimal \<Rightarrow> Decimal" where
  "dec_neg NaN = NaN"
| "dec_neg (Infinity s) = Infinity (\<not> s)"
| "dec_neg (Fin s c e) = Fin (\<not> s) c e"

definition dec_sub :: "Decimal \<Rightarrow> Decimal \<Rightarrow> Decimal" where
  "dec_sub x y = dec_add x (dec_neg y)"

fun dec_mul :: "Decimal \<Rightarrow> Decimal \<Rightarrow> Decimal" where
  "dec_mul NaN _ = NaN"
| "dec_mul _ NaN = NaN"
| "dec_mul (Infinity s) (Infinity t) = Infinity (s \<noteq> t)"
| "dec_mul (Infinity s) (Fin t c e) = (if c = 0 then NaN else Infinity (s \<noteq> t))"
| "dec_mul (Fin s c e) (Infinity t) = (if c = 0 then NaN else Infinity (s \<noteq> t))"
| "dec_mul (Fin s1 c1 e1) (Fin s2 c2 e2) = finalise (s1 \<noteq> s2) (c1 * c2) (e1 + e2)"

text \<open>Division: the quotient is developed to at least 21 digits and rounded half up to
  the precision (with that rounding mode the digits beyond the rounding digit do not
  matter).\<close>

fun dec_div :: "Decimal \<Rightarrow> Decimal \<Rightarrow> Decimal" where
  "dec_div NaN _ = NaN"
| "dec_div _ NaN = NaN"
| "dec_div (Infinity s) (Infinity t) = NaN"
| "dec_div (Infinity s) (Fin t c e) = Infinity (s \<noteq> t)"
| "dec_div (Fin s c e) (Infinity t) = Fin (s \<noteq> t) 0 0"
| "dec_div (Fin s1 c1 e1) (Fin s2 c2 e2) =
     (if c2 = 0 then (if c1 = 0 then NaN else Infinity (s1 \<noteq> s2))
      else if c1 = 0 then Fin (s1 \<noteq> s2) 0 0
      else let k = ndigits c2 + precision + 1
           in finalise (s1 \<noteq> s2) ((c1 * 10 ^ k) div c2) (e1 - e2 - int k))"

text \<open>Comparison: \<open>cmp\<close> is \<open>None\<close> (the engine's \<open>NaN\<close>) when an operand is
  \<open>NaN\<close>, else the sign of the difference.\<close>

fun dec_cmp :: "Decimal \<Rightarrow> Decimal \<Rightarrow> int option" where
  "dec_cmp NaN _ = None"
| "dec_cmp _ NaN = None"
| "dec_cmp (Infinity s) (Infinity t) = Some (if s = t then 0 else if s then - 1 else 1)"
| "dec_cmp (Infinity s) _ = Some (if s then - 1 else 1)"
| "dec_cmp _ (Infinity t) = Some (if t then 1 else - 1)"
| "dec_cmp (Fin s1 c1 e1) (Fin s2 c2 e2) =
     (let e = min e1 e2;
          a = sval s1 c1 * 10 ^ nat (e1 - e);
          b = sval s2 c2 * 10 ^ nat (e2 - e)
      in Some (if a < b then - 1 else if a = b then 0 else 1))"

definition dec_gt :: "Decimal \<Rightarrow> Decimal \<Rightarrow> bool" where
  "dec_gt x y = (case dec_cmp x y of None \<Rightarrow> False | Some k \<Rightarrow> 0 < k)"

definition dec_gte :: "Decimal \<Rightarrow> Decimal \<Rightarrow> bool" where
  "dec_gte x y = (case dec_cmp x y of None \<Rightarrow> False | Some k \<Rightarrow> k = 1 \<or> k = 0)"

definition dec_lt :: "Decimal \<Rightarrow> Decimal \<Rightarrow> bool" where
  "dec_lt x y = (case dec_cmp x y of None \<Rightarrow> False | Some k \<Rightarrow> k < 0)"

definition dec_lte :: "Decimal \<Rightarrow> Decimal \<Rightarrow> bool" where
  "dec_lte x y = (case dec_cmp x y of None \<Rightarrow> False | Some k \<Rightarrow> k < 1)"

definition dec_eq :: "Decimal \<Rightarrow> Decimal \<Rightarrow> bool" where
  "dec_eq x y = (case dec_cmp x y of None \<Rightarrow> False | Some k \<Rightarrow> k = 0)"

text \<open>\<open>toDecimal(10).pow(toDecimal(k))\<close> for a non-negative integer \<open>k\<close>: the integer
  power is exact (one significant digit), then range-checked.\<close>

definition pow10 :: "nat \<Rightarrow> Decimal" where
  "pow10 k = checkRange False 1 (int k)"

subsection \<open>Strings of the engine\<close>

text \<open>Strings are lists of 8-bit characters. \<open>NUMERALS\<close> is the engine's digit
  alphabet.\<close>

definition NUMERALS :: string where
  "NUMERALS = ''0123456789abcdef''"

definition numeral_char :: "nat \<Rightarrow> char" where
  "numeral_char d = (if d < 16 then NUMERALS ! d else CHR ''?'')"

fun digits10 :: "nat \<Rightarrow> string" where
  "digits10 n = (if n < 10 then [numeral_char n] else digits10 (n div 10) @ [numeral_char (n mod 10)])"

declare digits10.simps [simp del]

text \<open>Digit values of \<open>n\<close> in base \<open>b\<close>, most significant first.\<close>

function digitsB :: "nat \<Rightarrow> nat \<Rightarrow> nat list" where
  "digitsB b n = (if b < 2 \<or> n < b then [n] else digitsB b (n div b) @ [n mod b])"
  by pat_completeness auto
termination
  by (relation "measure (\<lambda>(b, n). n)") auto

declare digitsB.simps [simp del]

definition undigitsB :: "nat \<Rightarrow> nat list \<Rightarrow> nat" where
  "undigitsB b ds = foldl (\<lambda>a d. b * a + d) 0 ds"

function stripzB :: "nat \<Rightarrow> nat \<Rightarrow> int \<Rightarrow> nat \<times> int" where
  "stripzB b c e =
     (if 2 \<le> b \<and> c \<noteq> 0 \<and> c mod b = 0 then stripzB b (c div b) (e + 1) else (c, e))"
  by pat_completeness auto
termination
  by (relation "measure (\<lambda>(b, c, e). c)") auto

declare stripzB.simps [simp del]

text \<open>Writing the digit string \<open>ds\<close> of a coefficient whose last digit has weight
  \<open>base^k\<close> in positional notation.\<close>

definition positional :: "string \<Rightarrow> int \<Rightarrow> string" where
  "positional ds k =
     (if 0 \<le> k then ds @ replicate (nat k) CHR ''0''
      else if - k < int (length ds)
        then take (nat (int (length ds) + k)) ds @ ''.'' @ drop (nat (int (length ds) + k)) ds
      else ''0.'' @ replicate (nat (- k - int (length ds))) CHR ''0'' @ ds)"

text \<open>\<open>finiteToString(x, isExp)\<close> with \<open>isExp = x.e <= toExpNeg || x.e >= toExpPos\<close>.\<close>

definition finiteToString :: "nat \<Rightarrow> int \<Rightarrow> string" where
  "finiteToString c e =
     (let ds = digits10 c; E = sciexp c e in
      if E \<le> toExpNeg \<or> toExpPos \<le> E
      then (if 1 < length ds then hd ds # CHR ''.'' # tl ds else ds)
           @ (if E < 0 then ''e-'' @ digits10 (nat (- E)) else ''e+'' @ digits10 (nat E))
      else positional ds e)"

text \<open>\<open>Decimal.prototype.toString\<close>: the sign is printed unless the value is zero.\<close>

fun dec_toString :: "Decimal \<Rightarrow> string" where
  "dec_toString NaN = ''NaN''"
| "dec_toString (Infinity s) = (if s then ''-Infinity'' else ''Infinity'')"
| "dec_toString (Fin s c e) = (if s \<and> c \<noteq> 0 then ''-'' else []) @ finiteToString c e"

text \<open>\<open>toStringBinary(x, baseOut)\<close> without a digit count, as \<open>toBinary()\<close> and
  \<open>toHexadecimal()\<close> call it: the value is written in the output base, rounded half up to
  \<open>precision\<close> significant digits of that base (the rounding digit is \<open>xd[sd]\<close>, rounded
  up when it is at least \<open>base / 2\<close>), in positional notation behind the prefix
  \<open>0b\<close> or \<open>0x\<close>; the sign is printed whenever the sign field is negative.\<close>

definition basePrefix :: "nat \<Rightarrow> string" where
  "basePrefix b = (if b = 16 then ''0x'' else if b = 2 then ''0b'' else if b = 8 then ''0o'' else [])"

definition baseBody :: "nat \<Rightarrow> nat \<Rightarrow> int \<Rightarrow> string" where
  "baseBody b c e =
     (if c = 0 then ''0''
      else let num = c * 10 ^ nat e;
               den = 10 ^ nat (- e);
               t = length (digitsB b den) + precision + 1;
               ds = digitsB b ((num * b ^ t) div den);
               rd = ds ! precision;
               m = undigitsB b (take precision ds) + (if b \<le> 2 * rd then 1 else 0)
           in case stripzB b m (int (length ds) - int precision - int t) of
                (m', k') \<Rightarrow> positional (map numeral_char (digitsB b m')) k')"

fun toStringBinary :: "nat \<Rightarrow> Decimal \<Rightarrow> string" where
  "toStringBinary b NaN = ''NaN''"
| "toStringBinary b (Infinity s) = (if s then ''-Infinity'' else ''Infinity'')"
| "toStringBinary b (Fin s c e) = (if s then ''-'' else []) @ basePrefix b @ baseBody b c e"

definition toBinary :: "Decimal \<Rightarrow> string" where
  "toBinary x = toStringBinary 2 x"

definition toHexadecimal :: "Decimal \<Rightarrow> string" where
  "toHexadecimal x = toStringBinary 16 x"

subsection \<open>The constructor of the engine\<close>

text \<open>
  \<open>new PreciseDecimal(str)\<close> takes a sign, then a decimal literal
  (\<open>/^(\d+(\.\d*)?|\.\d+)(e[+-]?\d+)?$/i\<close>), \<open>Infinity\<close>, \<open>NaN\<close> or a prefixed
  literal, and throws \<open>[DecimalError] Invalid argument\<close> on anything else. The value is
  taken exactly (no rounding), then range-checked. Hexadecimal integers are modelled;
  binary and octal literals, hexadecimal fractions and binary exponents, digit separators
  and a leading plus sign (accepted by some versions of the engine only) are reported as
  \<open>Unmodelled\<close>: the model does not say what the engine does with them.
\<close>

datatype error = DecimalError | UnrecognizedScale | InvalidScale | TypeError | Unmodelled

definition is_digit :: "char \<Rightarrow> bool" where
  "is_digit ch = (48 \<le> (of_char ch :: nat) \<and> (of_char ch :: nat) \<le> 57)"

definition digit_val :: "char \<Rightarrow> nat" where
  "digit_val ch = of_char ch - 48"

definition undigits10 :: "string \<Rightarrow> nat" where
  "undigits10 ds = foldl (\<lambda>a ch. 10 * a + digit_val ch) 0 ds"

definition hex_val :: "char \<Rightarrow> nat option" where
  "hex_val ch =
     (let k = (of_char ch :: nat) in
      if 48 \<le> k \<and> k \<le> 57 then Some (k - 48)
      else if 97 \<le> k \<and> k \<le> 102 then Some (k - 87)
      else if 65 \<le> k \<and> k \<le> 70 then Some (k - 55)
      else None)"

definition is_e :: "char \<Rightarrow> bool" where
  "is_e ch = (ch = CHR ''e'' \<or> ch = CHR ''E'')"

definition parse_exp :: "string \<Rightarrow> int option" where
  "parse_exp r =
     (case r of
        [] \<Rightarrow> None
      | ch # ds \<Rightarrow>
          if ch = CHR ''-'' then (if ds \<noteq> [] \<and> list_all is_digit ds then Some (- int (undigits10 ds)) else None)
          else if ch = CHR ''+'' then (if ds \<noteq> [] \<and> list_all is_digit ds then Some (int (undigits10 ds)) else None)
          else if list_all is_digit r then Some (int (undigits10 r)) else None)"

definition parse_mantissa :: "string \<Rightarrow> (string \<times> string) option" where
  "parse_mantissa m =
     (let ip = takeWhile (\<lambda>ch. ch \<noteq> CHR ''.'') m;
          r = dropWhile (\<lambda>ch. ch \<noteq> CHR ''.'') m
      in if r = [] then (if ip \<noteq> [] \<and> list_all is_digit ip then Some (ip, []) else None)
         else if list_all is_digit ip \<and> list_all is_digit (tl r) \<and> (ip \<noteq> [] \<or> tl r \<noteq> [])
           then Some (ip, tl r) else None)"

text \<open>A decimal literal as coefficient and exponent.\<close>

definition parseDecimal :: "string \<Rightarrow> (nat \<times> int) option" where
  "parseDecimal str =
     (let m = takeWhile (\<lambda>ch. \<not> is_e ch) str;
          r = dropWhile (\<lambda>ch. \<not> is_e ch) str
      in case parse_mantissa m of
           None \<Rightarrow> None
         | Some (ip, fp) \<Rightarrow>
             (case (if r = [] then Some 0 else parse_exp (tl r)) of
                None \<Rightarrow> None
              | Some x \<Rightarrow> Some (undigits10 (ip @ fp), x - int (length fp))))"

definition parseHexInt :: "string \<Rightarrow> nat option" where
  "parseHexInt str =
     (case str of
        z # x # hs \<Rightarrow>
          if z = CHR ''0'' \<and> (x = CHR ''x'' \<or> x = CHR ''X'') \<and> hs \<noteq> [] \<and> list_all (\<lambda>ch. hex_val ch \<noteq> None) hs
          then Some (foldl (\<lambda>a ch. 16 * a + the (hex_val ch)) 0 hs) else None
      | _ \<Rightarrow> None)"

definition otherLiteral :: "string \<Rightarrow> bool" where
  "otherLiteral str =
     (CHR ''_'' \<in> set str \<or>
      (str \<noteq> [] \<and> hd str = CHR ''+'') \<or>
      (case str of
         z # x # hs \<Rightarrow> z = CHR ''0'' \<and> x \<in> set ''xXbBoO''
       | _ \<Rightarrow> False))"

definition parseString :: "string \<Rightarrow> error + Decimal" where
  "parseString v =
     (let neg = (v \<noteq> [] \<and> hd v = CHR ''-'');
          w = (if neg then tl v else v)
      in case parseDecimal w of
           Some (c, e) \<Rightarrow> Inr (mkDecimal neg c e)
         | None \<Rightarrow>
             if w = ''Infinity'' then Inr (Infinity neg)
             else if w = ''NaN'' then Inr NaN
             else (case parseHexInt w of
                     Some c \<Rightarrow> Inr (mkDecimal neg c 0)
                   | None \<Rightarrow> if otherLiteral w then Inl Unmodelled else Inl DecimalError))"

section \<open>Objects and the heap\<close>

text \<open>
  A \<open>BigVal\<close> object has the fields \<open>_n\<close> (a reference to an engine object),
  \<open>_scale\<close> and \<open>_config\<close>. Objects live in a heap: engine objects and instances are
  allocated at the next free address and are referred to by address, so that aliasing and
  the one assignment to a field (\<open>n._scale = ...\<close>) are visible. The type of the scale
  tag is a parameter: a number in \<open>index.ts\<close> (the enum \<open>BigValScale\<close>), a string in the
  revision with named scales.
\<close>

record BigValConfig =
  decimals :: "nat option"

record 's BigVal =
  v_n :: nat
  v_scale :: 's
  v_config :: BigValConfig

record 's heap =
  decs :: "Decimal list"
  objs :: "'s BigVal list"

text \<open>What a caller can pass where the source says \<open>any\<close>: a number (an integer that
  JavaScript prints in plain decimal notation), a string, an object with a \<open>_hex\<close> field,
  an object carrying the big-number marker whose \<open>toString(10)\<close> gives the string, an engine
  object, an instance, \<open>undefined\<close> or \<open>null\<close>.\<close>

datatype src = Num int | Str string | HexObj string | MarkedObj string
  | DecObj nat | BigValObj nat | Undefined | Null

definition new_Decimal :: "Decimal \<Rightarrow> 's heap \<Rightarrow> nat \<times> 's heap" where
  "new_Decimal d h = (length (decs h), h\<lparr>decs := decs h @ [d]\<rparr>)"

definition new_object :: "'s BigVal \<Rightarrow> 's heap \<Rightarrow> nat \<times> 's heap" where
  "new_object v h = (length (objs h), h\<lparr>objs := objs h @ [v]\<rparr>)"

text \<open>Sequencing of calls that may throw: the first error ends the computation.\<close>

definition bind :: "error + 'a \<times> 'h \<Rightarrow> ('a \<Rightarrow> 'h \<Rightarrow> error + 'b \<times> 'h) \<Rightarrow> error + 'b \<times> 'h" where
  "bind m f = (case m of Inl e \<Rightarrow> Inl e | Inr (a, h) \<Rightarrow> f a h)"

text \<open>\<open>new PreciseDecimal(str)\<close>: a new engine object, or the engine's error.\<close>

definition PreciseDecimal :: "string \<Rightarrow> 's heap \<Rightarrow> error + nat \<times> 's heap" where
  "PreciseDecimal str h = (case parseString str of Inl e \<Rightarrow> Inl e | Inr d \<Rightarrow> Inr (new_Decimal d h))"

definition showInt :: "int \<Rightarrow> string" where
  "showInt i = (if i < 0 then ''-'' else []) @ digits10 (nat \<bar>i\<bar>)"

text \<open>The template string \<open>`${a}`\<close> after the two probes of \<open>toDecimal\<close>
  (\<open>a._hex\<close>, then the marker). An instance prints through its own \<open>toString()\<close>,
  that is, its magnitude in base 10.\<close>

definition stringify :: "src \<Rightarrow> 's heap \<Rightarrow> string" where
  "stringify a h =
     (case a of
        Num i \<Rightarrow> showInt i
      | Str s \<Rightarrow> s
      | HexObj x \<Rightarrow> (if x \<noteq> [] then x else ''[object Object]'')
      | MarkedObj s \<Rightarrow> s
      | DecObj r \<Rightarrow> dec_toString (decs h ! r)
      | BigValObj p \<Rightarrow> dec_toString (decs h ! v_n (objs h ! p))
      | Undefined \<Rightarrow> ''undefined''
      | Null \<Rightarrow> ''null'')"

definition toDecimal :: "src \<Rightarrow> 's heap \<Rightarrow> error + nat \<times> 's heap" where
  "toDecimal a h = PreciseDecimal (stringify a h) h"

section \<open>The class \<open>BigVal\<close> of \<open>index.ts\<close>\<close>

type_synonym BigValScale = int

definition SMALLEST :: BigValScale where
  "SMALLEST = 0"

definition NORMAL :: BigValScale where
  "NORMAL = 1"

definition defaultConfig :: BigValConfig where
  "defaultConfig = \<lparr>decimals = Some 18\<rparr>"

text \<open>The constructor. From an instance it copies the magnitude through \<open>toDecimal\<close> and
  takes scale and config from the instance; otherwise it stores the parameters as given.
  A caller that leaves out the parameters passes the defaults of the signature,
  \<open>SMALLEST\<close> and \<open>defaultConfig\<close>. The methods \<open>round\<close>, \<open>toFixed\<close> and \<open>toNumber\<close>,
  which no property below is about, are left out.\<close>

definition BigVal_new :: "src \<Rightarrow> BigValScale \<Rightarrow> BigValConfig \<Rightarrow> BigValScale heap \<Rightarrow> error + nat \<times> BigValScale heap" where
  "BigVal_new s scale config h =
     (case s of
        BigValObj p \<Rightarrow>
          bind (toDecimal (DecObj (v_n (objs h ! p))) h)
            (\<lambda>d h1. Inr (new_object \<lparr>v_n = d, v_scale = v_scale (objs h1 ! p), v_config = v_config (objs h1 ! p)\<rparr> h1))
      | _ \<Rightarrow>
          bind (toDecimal s h)
            (\<lambda>d h1. Inr (new_object \<lparr>v_n = d, v_scale = scale, v_config = config\<rparr> h1)))"

text \<open>The body shared by the bound closures \<open>mul\<close>, \<open>sub\<close>, \<open>div\<close>, \<open>add\<close> once the
  operand is an engine object at address \<open>d\<close>: the engine's operation on the two magnitudes,
  then \<open>new BigVal(result, this._scale, this._config)\<close>.\<close>

definition arith_dec :: "(Decimal \<Rightarrow> Decimal \<Rightarrow> Decimal) \<Rightarrow> nat \<Rightarrow> nat \<Rightarrow> BigValScale heap \<Rightarrow> error + nat \<times> BigValScale heap" where
  "arith_dec f this d h =
     (case new_Decimal (f (decs h ! v_n (objs h ! this)) (decs h ! d)) h of
        (r, h1) \<Rightarrow> BigVal_new (DecObj r) (v_scale (objs h1 ! this)) (v_config (objs h1 ! this)) h1)"

text \<open>A closure applied to an operand without a \<open>_n\<close> field:
  \<open>toDecimalAtOriginalScale\<close> takes its \<open>toDecimal\<close> branch.\<close>

definition arith_plain :: "(Decimal \<Rightarrow> Decimal \<Rightarrow> Decimal) \<Rightarrow> nat \<Rightarrow> src \<Rightarrow> BigValScale heap \<Rightarrow> error + nat \<times> BigValScale heap" where
  "arith_plain f this v h = bind (toDecimal v h) (\<lambda>d h1. arith_dec f this d h1)"

text \<open>\<open>x.pow(y)\<close> for \<open>x = 10\<close>, modelled for integer exponents and the special values;
  \<open>None\<close> stands for an exponent with a fraction, which is not modelled.\<close>

fun dec_pow10 :: "Decimal \<Rightarrow> Decimal option" where
  "dec_pow10 NaN = Some NaN"
| "dec_pow10 (Infinity s) = Some (if s then Fin False 0 0 else Infinity False)"
| "dec_pow10 (Fin s c e) =
     (if c \<noteq> 0 \<and> e < 0 then None
      else if s then Some (checkRange False 1 (- int (c * 10 ^ nat e)))
      else Some (pow10 (c * 10 ^ nat e)))"

text \<open>\<open>toDecimal(10).pow(toDecimal(v))\<close>: three engine objects.\<close>

definition tenPow :: "src \<Rightarrow> 's heap \<Rightarrow> error + nat \<times> 's heap" where
  "tenPow v h =
     bind (toDecimal (Num 10) h) (\<lambda>t h1.
     bind (toDecimal v h1) (\<lambda>y h2.
       case dec_pow10 (decs h2 ! y) of
         None \<Rightarrow> Inl Unmodelled
       | Some p \<Rightarrow> Inr (new_Decimal p h2)))"

definition scaleDown :: "nat \<Rightarrow> src \<Rightarrow> BigValScale heap \<Rightarrow> error + nat \<times> BigValScale heap" where
  "scaleDown this v h = bind (tenPow v h) (\<lambda>p h1. arith_plain dec_mul this (DecObj p) h1)"

definition scaleUp :: "nat \<Rightarrow> src \<Rightarrow> BigValScale heap \<Rightarrow> error + nat \<times> BigValScale heap" where
  "scaleUp this v h = bind (tenPow v h) (\<lambda>p h1. arith_plain dec_div this (DecObj p) h1)"

text \<open>\<open>this._config.decimals\<close> as a value: a number, or \<open>undefined\<close>.\<close>

definition decimalsOf :: "BigValConfig \<Rightarrow> src" where
  "decimalsOf c = (case decimals c of None \<Rightarrow> Undefined | Some k \<Rightarrow> Num (int k))"

definition set_scale :: "nat \<Rightarrow> 's \<Rightarrow> 's heap \<Rightarrow> 's heap" where
  "set_scale p s h = h\<lparr>objs := (objs h)[p := (objs h ! p)\<lparr>v_scale := s\<rparr>]\<rparr>"

definition toSmallestScale :: "nat \<Rightarrow> BigValScale heap \<Rightarrow> error + nat \<times> BigValScale heap" where
  "toSmallestScale this h =
     (if v_scale (objs h ! this) = SMALLEST then Inr (this, h)
      else bind (scaleDown this (decimalsOf (v_config (objs h ! this))) h)
             (\<lambda>n h1. Inr (n, set_scale n SMALLEST h1)))"

definition toNormalScale :: "nat \<Rightarrow> BigValScale heap \<Rightarrow> error + nat \<times> BigValScale heap" where
  "toNormalScale this h =
     (if v_scale (objs h ! this) = NORMAL then Inr (this, h)
      else bind (scaleUp this (decimalsOf (v_config (objs h ! this))) h)
             (\<lambda>n h1. Inr (n, set_scale n NORMAL h1)))"

definition toScale :: "nat \<Rightarrow> BigValScale \<Rightarrow> BigValScale heap \<Rightarrow> error + nat \<times> BigValScale heap" where
  "toScale this scale h =
     (if scale = SMALLEST then toSmallestScale this h
      else if scale = NORMAL then toNormalScale this h
      else Inl UnrecognizedScale)"

text \<open>\<open>input._n ? input.toScale(reference.scale)._n : toDecimal(input)\<close>. Reading
  \<open>_n\<close> of \<open>undefined\<close> or \<open>null\<close> is a \<open>TypeError\<close>; only an instance has the field.\<close>

definition toDecimalAtOriginalScale :: "src \<Rightarrow> nat \<Rightarrow> BigValScale heap \<Rightarrow> error + nat \<times> BigValScale heap" where
  "toDecimalAtOriginalScale input reference h =
     (case input of
        Undefined \<Rightarrow> Inl TypeError
      | Null \<Rightarrow> Inl TypeError
      | BigValObj p \<Rightarrow>
          bind (toScale p (v_scale (objs h ! reference)) h) (\<lambda>q h1. Inr (v_n (objs h1 ! q), h1))
      | _ \<Rightarrow> toDecimal input h)"

text \<open>The closures bound in the constructor.\<close>

definition arith :: "(Decimal \<Rightarrow> Decimal \<Rightarrow> Decimal) \<Rightarrow> nat \<Rightarrow> src \<Rightarrow> BigValScale heap \<Rightarrow> error + nat \<times> BigValScale heap" where
  "arith f this v h = bind (toDecimalAtOriginalScale v this h) (\<lambda>d h1. arith_dec f this d h1)"

definition compare :: "(Decimal \<Rightarrow> Decimal \<Rightarrow> bool) \<Rightarrow> nat \<Rightarrow> src \<Rightarrow> BigValScale heap \<Rightarrow> error + bool \<times> BigValScale heap" where
  "compare f this v h =
     bind (toDecimalAtOriginalScale v this h)
       (\<lambda>d h1. Inr (f (decs h1 ! v_n (objs h1 ! this)) (decs h1 ! d), h1))"

definition mul :: "nat \<Rightarrow> src \<Rightarrow> BigValScale heap \<Rightarrow> error + nat \<times> BigValScale heap" where
  "mul = arith dec_mul"

definition sub :: "nat \<Rightarrow> src \<Rightarrow> BigValScale heap \<Rightarrow> error + nat \<times> BigValScale heap" where
  "sub = arith dec_sub"

definition div_op :: "nat \<Rightarrow> src \<Rightarrow> BigValScale heap \<Rightarrow> error + nat \<times> BigValScale heap" where
  "div_op = arith dec_div"

definition add :: "nat \<Rightarrow> src \<Rightarrow> BigValScale heap \<Rightarrow> error + nat \<times> BigValScale heap" where
  "add = arith dec_add"

definition gt :: "nat \<Rightarrow> src \<Rightarrow> BigValScale heap \<Rightarrow> error + bool \<times> BigValScale heap" where
  "gt = compare dec_gt"

definition gte :: "nat \<Rightarrow> src \<Rightarrow> BigValScale heap \<Rightarrow> error + bool \<times> BigValScale heap" where
  "gte = compare dec_gte"

definition lt :: "nat \<Rightarrow> src \<Rightarrow> BigValScale heap \<Rightarrow> error + bool \<times> BigValScale heap" where
  "lt = compare dec_lt"

definition lte :: "nat \<Rightarrow> src \<Rightarrow> BigValScale heap \<Rightarrow> error + bool \<times> BigValScale heap" where
  "lte = compare dec_lte"

definition eq :: "nat \<Rightarrow> src \<Rightarrow> BigValScale heap \<Rightarrow> error + bool \<times> BigValScale heap" where
  "eq = compare dec_eq"

text \<open>\<open>str.indexOf(ch)\<close> and \<open>str.substr(i)\<close> for \<open>i \<ge> 0\<close>.\<close>

fun indexOf :: "string \<Rightarrow> char \<Rightarrow> int" where
  "indexOf [] ch = - 1"
| "indexOf (x # xs) ch = (if x = ch then 0 else (let i = indexOf xs ch in if i < 0 then - 1 else i + 1))"

definition substr :: "string \<Rightarrow> int \<Rightarrow> string" where
  "substr str i = drop (nat i) str"

text \<open>\<open>toString(base)\<close>: a \<open>switch\<close> with the cases 2 and 16 and a default.\<close>

definition toString :: "nat \<Rightarrow> int \<Rightarrow> 's heap \<Rightarrow> error + string" where
  "toString this base h =
     (if base = 2 then
        (let str = toBinary (decs h ! v_n (objs h ! this)) in Inr (substr str (indexOf str CHR ''b'' + 1)))
      else if base = 16 then Inr (toHexadecimal (decs h ! v_n (objs h ! this)))
      else Inr (dec_toString (decs h ! v_n (objs h ! this))))"

section \<open>The revision with named scales\<close>

text \<open>
  An earlier revision of the class (kept in the repository next to \<open>index.ts\<close>) names the
  scales by the strings \<open>min\<close> and \<open>coins\<close>, checks a scale with \<open>assertValidScale\<close>,
  recognises instances with \<open>isBigVal\<close>, applies \<open>toDecimal\<close> to the operand of an
  arithmetic closure, and exports \<open>minStr\<close>.

  \<open>SCALE\<close> is an object literal, so \<open>SCALE[s]\<close> also finds the properties every object
  inherits from \<open>Object.prototype\<close>; their values are functions or objects, all truthy.
\<close>

definition SCALE :: "string \<Rightarrow> string option" where
  "SCALE s = (if s = ''coins'' then Some ''coins'' else if s = ''min'' then Some ''min'' else None)"

definition objectPrototype :: "string list" where
  "objectPrototype =
     [''constructor'', ''toString'', ''toLocaleString'', ''valueOf'', ''hasOwnProperty'',
      ''isPrototypeOf'', ''propertyIsEnumerable'', ''__proto__'', ''__defineGetter__'',
      ''__defineSetter__'', ''__lookupGetter__'', ''__lookupSetter__'']"

definition SCALE_truthy :: "string \<Rightarrow> bool" where
  "SCALE_truthy s = (case SCALE s of Some v \<Rightarrow> v \<noteq> [] | None \<Rightarrow> s \<in> set objectPrototype)"

definition assertValidScale :: "string \<Rightarrow> error + unit" where
  "assertValidScale s = (if \<not> SCALE_truthy s then Inl InvalidScale else Inr ())"

text \<open>\<open>!!(v && v._n && v.scale && v.toString && v.toMinScale)\<close>: only an instance has
  \<open>_n\<close>, and its scale is truthy when it is not the empty string.\<close>

definition isBigVal :: "src \<Rightarrow> string heap \<Rightarrow> bool" where
  "isBigVal v h = (case v of BigValObj p \<Rightarrow> v_scale (objs h ! p) \<noteq> [] | _ \<Rightarrow> False)"

definition BigVal_new_str :: "src \<Rightarrow> string \<Rightarrow> BigValConfig \<Rightarrow> string heap \<Rightarrow> error + nat \<times> string heap" where
  "BigVal_new_str s scale config h =
     (if isBigVal s h then
        (case s of
           BigValObj p \<Rightarrow>
             bind (toDecimal (DecObj (v_n (objs h ! p))) h)
               (\<lambda>d h1. Inr (new_object \<lparr>v_n = d, v_scale = v_scale (objs h1 ! p), v_config = v_config (objs h1 ! p)\<rparr> h1))
         | _ \<Rightarrow> Inl TypeError)
      else
        bind (toDecimal s h)
          (\<lambda>d h1. case assertValidScale scale of
                     Inl e \<Rightarrow> Inl e
                   | Inr _ \<Rightarrow> Inr (new_object \<lparr>v_n = d, v_scale = scale, v_config = config\<rparr> h1)))"

text \<open>The arithmetic closures of this revision:
  \<open>new BigVal(this._n[method](toDecimal(v)), this._scale, this._config)\<close>.\<close>

definition arith_str :: "(Decimal \<Rightarrow> Decimal \<Rightarrow> Decimal) \<Rightarrow> nat \<Rightarrow> src \<Rightarrow> string heap \<Rightarrow> error + nat \<times> string heap" where
  "arith_str f this v h =
     bind (toDecimal v h) (\<lambda>d h1.
       case new_Decimal (f (decs h1 ! v_n (objs h1 ! this)) (decs h1 ! d)) h1 of
         (r, h2) \<Rightarrow> BigVal_new_str (DecObj r) (v_scale (objs h2 ! this)) (v_config (objs h2 ! this)) h2)"


text \<open>A revision between \<open>index.ts\<close> and the one above (kept in the repository too) has
  the named scales with the methods \<open>scaleDown\<close> and \<open>scaleUp\<close> of \<open>index.ts\<close>; its
  \<open>toMinScale\<close> returns \<open>this\<close> at scale \<open>min\<close> and otherwise assigns \<open>SCALE.coins\<close> to
  the scale of the instance that \<open>scaleDown\<close> returns. Its closure \<open>mul\<close>, called by
  \<open>scaleDown\<close> with an engine object, applies \<open>toDecimal\<close> to it as \<open>arith_str\<close> does.\<close>

definition toMinScale_rev :: "nat \<Rightarrow> string heap \<Rightarrow> error + nat \<times> string heap" where
  "toMinScale_rev this h =
     (if v_scale (objs h ! this) = ''min'' then Inr (this, h)
      else bind (tenPow (decimalsOf (v_config (objs h ! this))) h) (\<lambda>p h1.
           bind (arith_str dec_mul this (DecObj p) h1) (\<lambda>n h2. Inr (n, set_scale n ''coins'' h2))))"



fun split :: "char \<Rightarrow> string \<Rightarrow> string list" where
  "split sep [] = [[]]"
| "split sep (x # xs) =
     (if x = sep then [] # split sep xs
      else (case split sep xs of y # ys \<Rightarrow> (x # y) # ys | [] \<Rightarrow> [[x]]))"


section \<open>Well-formed values and heaps\<close>

text \<open>What the engine guarantees of the values it builds: a coefficient without trailing
  zeros and an exponent within the range; zero has exponent 0.\<close>

fun wf_dec :: "Decimal \<Rightarrow> bool" where
  "wf_dec NaN = True"
| "wf_dec (Infinity s) = True"
| "wf_dec (Fin s c e) =
     (if c = 0 then e = 0 else c mod 10 \<noteq> 0 \<and> minE \<le> sciexp c e \<and> sciexp c e \<le> maxE)"

text \<open>Printing a value and reading it back keeps it, except that \<open>-0\<close> prints as \<open>0\<close>.\<close>

fun unsignZero :: "Decimal \<Rightarrow> Decimal" where
  "unsignZero (Fin s c e) = Fin (s \<and> c \<noteq> 0) c e"
| "unsignZero d = d"

text \<open>The number a finite value stands for.\<close>

definition fin_value :: "bool \<Rightarrow> nat \<Rightarrow> int \<Rightarrow> rat" where
  "fin_value s c e = of_int (sval s c) * (if 0 \<le> e then 10 ^ nat e else 1 / 10 ^ nat (- e))"

definition magnitude :: "nat \<Rightarrow> 's heap \<Rightarrow> Decimal" where
  "magnitude p h = decs h ! v_n (objs h ! p)"

text \<open>In a well-formed heap every instance refers to an allocated engine object and every
  engine object holds a well-formed value.\<close>

definition wf_heap :: "'s heap \<Rightarrow> bool" where
  "wf_heap h = (list_all (\<lambda>v. v_n v < length (decs h)) (objs h) \<and> list_all wf_dec (decs h))"

definition empty_heap :: "'s heap" where
  "empty_heap = \<lparr>decs = [], objs = []\<rparr>"

text \<open>\<open>h'\<close> extends \<open>h\<close>: everything allocated in \<open>h\<close> is in \<open>h'\<close>, unchanged.\<close>

definition extends :: "'s heap \<Rightarrow> 's heap \<Rightarrow> bool" where
  "extends h h' = (prefix (decs h) (decs h') \<and> prefix (objs h) (objs h'))"

text \<open>A call returns (does not throw) and its result and final heap satisfy \<open>P\<close>.\<close>

definition returns :: "error + 'a \<times> 'h \<Rightarrow> ('a \<Rightarrow> 'h \<Rightarrow> bool) \<Rightarrow> bool" where
  "returns m P = (case m of Inl e \<Rightarrow> False | Inr (a, h) \<Rightarrow> P a h)"

text \<open>Observations of the instance a call returns: its magnitude, its scale, its string
  in a base (\<open>x.toString(base)\<close>).\<close>

definition magnitude_of :: "error + nat \<times> 's heap \<Rightarrow> error + Decimal" where
  "magnitude_of m = (case m of Inl e \<Rightarrow> Inl e | Inr (q, h) \<Rightarrow> Inr (magnitude q h))"

definition scale_of :: "error + nat \<times> 's heap \<Rightarrow> error + 's" where
  "scale_of m = (case m of Inl e \<Rightarrow> Inl e | Inr (q, h) \<Rightarrow> Inr (v_scale (objs h ! q)))"

definition string_of :: "error + nat \<times> 's heap \<Rightarrow> int \<Rightarrow> error + string" where
  "string_of m base = (case m of Inl e \<Rightarrow> Inl e | Inr (q, h) \<Rightarrow> toString q base h)"

text \<open>The magnitude \<open>y\<close> of an operand of scale \<open>own\<close> and \<open>decimals = D\<close>,
  expressed at the scale \<open>target\<close> of a receiver: as it is when the scales agree, else
  multiplied by \<open>10^D\<close> towards \<open>SMALLEST\<close> and divided by it towards \<open>NORMAL\<close>, by the
  engine.\<close>

definition atScale :: "BigValScale \<Rightarrow> BigValScale \<Rightarrow> nat \<Rightarrow> Decimal \<Rightarrow> Decimal" where
  "atScale target own D y =
     (if own = target then y
      else if target = SMALLEST then unsignZero (dec_mul y (pow10 D))
      else unsignZero (dec_div y (pow10 D)))"

text \<open>A method call with its argument fixed, to be chained after the call that returns the
  receiver: \<open>bind (BigVal_new ...) (with_arg div_op (Num 20))\<close> is \<open>new BigVal(...).div(20)\<close>.\<close>

definition with_arg :: "(nat \<Rightarrow> 'a \<Rightarrow> 'h \<Rightarrow> 'r) \<Rightarrow> 'a \<Rightarrow> nat \<Rightarrow> 'h \<Rightarrow> 'r" where
  "with_arg m v this h = m this v h"

text \<open>A closure applied to a new instance:
  \<open>bind (BigVal_new ...) (with_new add (Num 1) NORMAL config)\<close> is
  \<open>new BigVal(...).add(new BigVal(1, NORMAL, config))\<close>.\<close>

definition with_new :: "(nat \<Rightarrow> src \<Rightarrow> BigValScale heap \<Rightarrow> error + 'r \<times> BigValScale heap) \<Rightarrow>
    src \<Rightarrow> BigValScale \<Rightarrow> BigValConfig \<Rightarrow> nat \<Rightarrow> BigValScale heap \<Rightarrow> error + 'r \<times> BigValScale heap" where
  "with_new m s scale config this h = bind (BigVal_new s scale config h) (\<lambda>v h1. m this (BigValObj v) h1)"

text \<open>\<open>v.toScale(v.scale)\<close>.\<close>

definition toOwnScale :: "nat \<Rightarrow> BigValScale heap \<Rightarrow> error + nat \<times> BigValScale heap" where
  "toOwnScale this h = toScale this (v_scale (objs h ! this)) h"

section \<open>Digits and trailing zeros\<close>
lemma numeral_char_digit: "d < 10 \<Longrightarrow> is_digit (numeral_char d) \<and> digit_val (numeral_char d) = d"
proof -
  assume "d < 10"
  then have "d = 0 \<or> d = 1 \<or> d = 2 \<or> d = 3 \<or> d = 4 \<or> d = 5 \<or> d = 6 \<or> d = 7 \<or> d = 8 \<or> d = 9"
    by arith
  then show ?thesis
    by (elim disjE) (simp_all add: numeral_char_def NUMERALS_def is_digit_def digit_val_def)
qed

lemma digits10_digits: "list_all is_digit (digits10 n)"
proof (induction n rule: digits10.induct)
  case (1 n)
  show ?case
  proof (cases "n < 10")
    case True
    then show ?thesis by (subst digits10.simps) (simp add: numeral_char_digit)
  next
    case False
    then show ?thesis using 1 by (subst digits10.simps) (simp add: numeral_char_digit)
  qed
qed

lemma digits10_nonempty: "digits10 n \<noteq> []"
  by (subst digits10.simps) simp

lemma undigits10_snoc: "undigits10 (xs @ [ch]) = 10 * undigits10 xs + digit_val ch"
  by (simp add: undigits10_def)

lemma undigits10_digits10: "undigits10 (digits10 n) = n"
proof (induction n rule: digits10.induct)
  case (1 n)
  show ?case
  proof (cases "n < 10")
    case True
    then show ?thesis by (subst digits10.simps) (simp add: undigits10_def numeral_char_digit)
  next
    case False
    then show ?thesis using 1
      by (subst digits10.simps) (simp add: undigits10_snoc numeral_char_digit)
  qed
qed

lemma length_digits10: "length (digits10 n) = ndigits n"
proof (induction n rule: digits10.induct)
  case (1 n)
  show ?case
  proof (cases "n < 10")
    case True
    then show ?thesis by (subst digits10.simps, subst ndigits.simps) simp
  next
    case False
    then show ?thesis using 1 by (subst digits10.simps, subst ndigits.simps) simp
  qed
qed

lemma undigits10_append: "undigits10 (xs @ ys) = undigits10 xs * 10 ^ length ys + undigits10 ys"
proof (induction ys rule: rev_induct)
  case Nil
  show ?case by (simp add: undigits10_def)
next
  case (snoc y ys)
  have "undigits10 (xs @ ys @ [y]) = 10 * undigits10 (xs @ ys) + digit_val y"
    using undigits10_snoc [of "xs @ ys" y] by simp
  then show ?case using snoc by (simp add: undigits10_snoc algebra_simps)
qed

lemma undigits10_zeros: "undigits10 (replicate k CHR ''0'') = 0"
proof (induction k)
  case 0
  show ?case by (simp add: undigits10_def)
next
  case (Suc k)
  have "replicate (Suc k) CHR ''0'' = replicate k CHR ''0'' @ [CHR ''0'']"
    by (simp add: replicate_append_same)
  then show ?case using Suc by (simp only: undigits10_snoc) (simp add: digit_val_def)
qed

lemma stripz_pow: "c mod 10 \<noteq> 0 \<Longrightarrow> stripz (c * 10 ^ k) e = (c, e + int k)"
proof (induction k arbitrary: e)
  case 0
  then show ?case by (subst stripz.simps) auto
next
  case (Suc k)
  have "c \<noteq> 0" using Suc.prems by auto
  then have "stripz (c * 10 ^ Suc k) e = stripz (c * 10 ^ k) (e + 1)"
    by (subst stripz.simps) simp
  then show ?case using Suc by simp
qed

lemma stripz_normal: "c = 0 \<or> c mod 10 \<noteq> 0 \<Longrightarrow> stripz c e = (c, e)"
  by (subst stripz.simps) auto

lemma stripz_result: "stripz c e = (c', e') \<Longrightarrow> (c' = 0 \<or> c' mod 10 \<noteq> 0) \<and> (c' = 0 \<longleftrightarrow> c = 0)"
proof (induction c e rule: stripz.induct)
  case (1 c e)
  show ?case
  proof (cases "c \<noteq> 0 \<and> c mod 10 = 0")
    case True
    then have "stripz c e = stripz (c div 10) (e + 1)" by (subst stripz.simps) simp
    with 1 True show ?thesis by auto
  next
    case False
    then have "stripz c e = (c, e)" by (subst stripz.simps) auto
    with 1 False show ?thesis by auto
  qed
qed

section \<open>Reading back what the engine prints\<close>

subsection \<open>Pieces of the constructor\<close>
lemma digit_chars: "is_digit ch \<Longrightarrow> \<not> is_e ch \<and> ch \<noteq> CHR ''.'' \<and> ch \<noteq> CHR ''-'' \<and> ch \<noteq> CHR ''+''"
  by (auto simp: is_digit_def is_e_def)

lemma digits_set: "list_all is_digit ds \<Longrightarrow> x \<in> set ds \<Longrightarrow> is_digit x"
  by (simp add: list_all_iff)

lemma takeWhile_all: "(\<And>x. x \<in> set xs \<Longrightarrow> P x) \<Longrightarrow> takeWhile P xs = xs"
  by (induction xs) auto

lemma dropWhile_all: "(\<And>x. x \<in> set xs \<Longrightarrow> P x) \<Longrightarrow> dropWhile P xs = []"
  by (induction xs) auto

lemma takeWhile_stop: "(\<And>x. x \<in> set xs \<Longrightarrow> P x) \<Longrightarrow> \<not> P y \<Longrightarrow> takeWhile P (xs @ y # ys) = xs"
  by (induction xs) auto

lemma dropWhile_stop: "(\<And>x. x \<in> set xs \<Longrightarrow> P x) \<Longrightarrow> \<not> P y \<Longrightarrow> dropWhile P (xs @ y # ys) = y # ys"
  by (induction xs) auto

text \<open>Mantissa without a point.\<close>
lemma parse_mantissa_int:
  assumes "list_all is_digit ds" "ds \<noteq> []"
  shows "parse_mantissa ds = Some (ds, [])"
proof -
  have "\<And>x. x \<in> set ds \<Longrightarrow> x \<noteq> CHR ''.''"
    using assms(1) digit_chars digits_set by blast
  then have tw: "takeWhile (\<lambda>ch. ch \<noteq> CHR ''.'') ds = ds"
    and dw: "dropWhile (\<lambda>ch. ch \<noteq> CHR ''.'') ds = []"
    by (simp_all add: takeWhile_all dropWhile_all)
  show ?thesis unfolding parse_mantissa_def tw dw using assms by simp
qed

lemma parse_mantissa_point:
  assumes "list_all is_digit ip" "list_all is_digit fp" "ip \<noteq> []"
  shows "parse_mantissa (ip @ CHR ''.'' # fp) = Some (ip, fp)"
proof -
  have d: "\<And>x. x \<in> set ip \<Longrightarrow> x \<noteq> CHR ''.''"
    using assms(1) digit_chars digits_set by blast
  have "takeWhile (\<lambda>ch. ch \<noteq> CHR ''.'') (ip @ CHR ''.'' # fp) = ip"
    using d by (intro takeWhile_stop) auto
  moreover have "dropWhile (\<lambda>ch. ch \<noteq> CHR ''.'') (ip @ CHR ''.'' # fp) = CHR ''.'' # fp"
    using d by (intro dropWhile_stop) auto
  ultimately show ?thesis using assms by (simp add: parse_mantissa_def)
qed

text \<open>A string without exponent part.\<close>
lemma parseDecimal_noexp:
  assumes "\<And>x. x \<in> set str \<Longrightarrow> \<not> is_e x" "parse_mantissa str = Some (ip, fp)"
  shows "parseDecimal str = Some (undigits10 (ip @ fp), - int (length fp))"
proof -
  have tw: "takeWhile (\<lambda>ch. \<not> is_e ch) str = str"
    and dw: "dropWhile (\<lambda>ch. \<not> is_e ch) str = []"
    using assms(1) by (simp_all add: takeWhile_all dropWhile_all)
  show ?thesis unfolding parseDecimal_def tw dw using assms(2) by simp
qed

lemma parseDecimal_exp:
  assumes "\<And>x. x \<in> set m \<Longrightarrow> \<not> is_e x" "parse_mantissa m = Some (ip, fp)" "parse_exp r = Some x"
  shows "parseDecimal (m @ CHR ''e'' # r) = Some (undigits10 (ip @ fp), x - int (length fp))"
proof -
  have "takeWhile (\<lambda>ch. \<not> is_e ch) (m @ CHR ''e'' # r) = m"
    using assms(1) by (intro takeWhile_stop) (auto simp: is_e_def)
  moreover have "dropWhile (\<lambda>ch. \<not> is_e ch) (m @ CHR ''e'' # r) = CHR ''e'' # r"
    using assms(1) by (intro dropWhile_stop) (auto simp: is_e_def)
  ultimately show ?thesis using assms(2,3) by (simp add: parseDecimal_def)
qed

lemma parse_exp_neg: "parse_exp (CHR ''-'' # digits10 n) = Some (- int n)"
  by (simp add: parse_exp_def digits10_nonempty digits10_digits undigits10_digits10)

lemma parse_exp_pos: "parse_exp (CHR ''+'' # digits10 n) = Some (int n)"
  by (simp add: parse_exp_def digits10_nonempty digits10_digits undigits10_digits10)

subsection \<open>Exponential and positional notation\<close>
lemma digits_not_e: "x \<in> set (digits10 c) \<Longrightarrow> \<not> is_e x"
  using digits10_digits digits_set digit_chars by blast

lemma parse_fts_exp:
  assumes "sciexp c e \<le> toExpNeg \<or> toExpPos \<le> sciexp c e"
  shows "parseDecimal (finiteToString c e) = Some (c, e)"
proof -
  define ds where "ds = digits10 c"
  define E where "E = sciexp c e"
  define m where "m = (if 1 < length ds then hd ds # CHR ''.'' # tl ds else ds)"
  define r where "r = (if E < 0 then CHR ''-'' # digits10 (nat (- E)) else CHR ''+'' # digits10 (nat E))"
  have ds: "list_all is_digit ds" "ds \<noteq> []"
    by (simp_all add: ds_def digits10_digits digits10_nonempty)
  have str: "finiteToString c e = m @ CHR ''e'' # r"
    using assms by (simp add: finiteToString_def Let_def ds_def E_def m_def r_def)
  have pe: "parse_exp r = Some E"
    by (simp add: r_def parse_exp_neg parse_exp_pos)
  have hd_tl: "hd ds # tl ds = ds" using ds(2) by simp
  have dtl: "list_all is_digit (tl ds)" "is_digit (hd ds)"
    using ds by (cases ds; simp)+
  have pm: "parse_mantissa m = Some (if 1 < length ds then [hd ds] else ds, if 1 < length ds then tl ds else [])"
  proof (cases "1 < length ds")
    case True
    have "parse_mantissa ([hd ds] @ CHR ''.'' # tl ds) = Some ([hd ds], tl ds)"
      by (rule parse_mantissa_point) (simp_all add: dtl)
    then show ?thesis using True by (simp add: m_def)
  next
    case False
    then show ?thesis using ds by (simp add: m_def parse_mantissa_int)
  qed
  have me: "\<And>x. x \<in> set m \<Longrightarrow> \<not> is_e x"
  proof -
    fix x assume "x \<in> set m"
    then have "x \<in> set ds \<or> x = CHR ''.''"
      using ds(2) by (cases ds) (auto simp: m_def split: if_splits)
    then show "\<not> is_e x"
      using digits_not_e [of x c] by (auto simp: ds_def is_e_def)
  qed
  have "parseDecimal (m @ CHR ''e'' # r) =
        Some (undigits10 ((if 1 < length ds then [hd ds] else ds) @ (if 1 < length ds then tl ds else [])),
              E - int (length (if 1 < length ds then tl ds else [])))"
    by (rule parseDecimal_exp [OF me pm pe])
  moreover have "(if 1 < length ds then [hd ds] else ds) @ (if 1 < length ds then tl ds else []) = ds"
    using hd_tl by simp
  moreover have "E - int (length (if 1 < length ds then tl ds else [])) = e"
  proof -
    have "length ds = ndigits c" by (simp add: ds_def length_digits10)
    moreover have "1 \<le> length ds" using ds(2) by (cases ds) simp_all
    ultimately show ?thesis by (auto simp: E_def sciexp_def)
  qed
  ultimately show ?thesis by (simp add: str ds_def undigits10_digits10)
qed

lemma parse_fts_plain:
  assumes "\<not> (sciexp c e \<le> toExpNeg \<or> toExpPos \<le> sciexp c e)"
  shows "parseDecimal (finiteToString c e) =
         Some (if 0 \<le> e then (c * 10 ^ nat e, 0) else (c, e))"
proof -
  define ds where "ds = digits10 c"
  have ds: "list_all is_digit ds" "ds \<noteq> []"
    by (simp_all add: ds_def digits10_digits digits10_nonempty)
  have und: "undigits10 ds = c" by (simp add: ds_def undigits10_digits10)
  have str: "finiteToString c e = positional ds e"
    using assms by (simp add: finiteToString_def Let_def ds_def)
  have zs: "list_all is_digit (replicate k CHR ''0'')" for k
    by (simp add: list_all_iff is_digit_def)
  have noe: "list_all is_digit xs \<Longrightarrow> x \<in> set xs \<Longrightarrow> \<not> is_e x" for xs x
    using digits_set digit_chars by blast
  show ?thesis
  proof (cases "0 \<le> e")
    case True
    define str where "str = ds @ replicate (nat e) CHR ''0''"
    have a: "list_all is_digit str" using ds zs by (simp add: str_def)
    have "str \<noteq> []" using ds by (simp add: str_def)
    then have "parse_mantissa str = Some (str, [])" using a by (simp add: parse_mantissa_int)
    then have "parseDecimal str = Some (undigits10 (str @ []), - int (length ([]::string)))"
      using noe [OF a] by (intro parseDecimal_noexp) auto
    moreover have "undigits10 str = c * 10 ^ nat e"
      by (simp add: str_def undigits10_append und undigits10_zeros)
    ultimately show ?thesis using True by (simp add: \<open>finiteToString c e = positional ds e\<close> positional_def str_def)
  next
    case False
    show ?thesis
    proof (cases "- e < int (length ds)")
      case True
      define j where "j = nat (int (length ds) + e)"
      have j: "0 < j" "j < length ds" using True False by (auto simp: j_def)
      define ip where "ip = take j ds"
      define fp where "fp = drop j ds"
      have ipfp: "ip @ fp = ds" by (simp add: ip_def fp_def)
      have a: "list_all is_digit ip" "list_all is_digit fp" "ip \<noteq> []"
        using ds j by (auto simp: ip_def fp_def list_all_iff dest: in_set_takeD in_set_dropD)
      have pm: "parse_mantissa (ip @ CHR ''.'' # fp) = Some (ip, fp)"
        using a by (rule parse_mantissa_point)
      have "\<And>x. x \<in> set (ip @ CHR ''.'' # fp) \<Longrightarrow> \<not> is_e x"
        using noe [OF a(1)] noe [OF a(2)] by (auto simp: is_e_def)
      then have "parseDecimal (ip @ CHR ''.'' # fp) = Some (undigits10 (ip @ fp), - int (length fp))"
        using pm by (intro parseDecimal_noexp) auto
      moreover have "- int (length fp) = e" using j by (simp add: fp_def j_def)
      moreover have "positional ds e = ip @ CHR ''.'' # fp"
        using True False by (simp add: positional_def ip_def fp_def j_def)
      ultimately show ?thesis using False by (simp add: str ipfp und)
    next
      case nlt: False
      define k where "k = nat (- e - int (length ds))"
      define fp where "fp = replicate k CHR ''0'' @ ds"
      have a: "list_all is_digit ''0''" "list_all is_digit fp" "''0'' \<noteq> []"
        using ds zs by (simp_all add: fp_def is_digit_def)
      have pm: "parse_mantissa (''0'' @ CHR ''.'' # fp) = Some (''0'', fp)"
        using a by (rule parse_mantissa_point)
      have "\<And>x. x \<in> set (''0'' @ CHR ''.'' # fp) \<Longrightarrow> \<not> is_e x"
        using noe [OF a(2)] by (auto simp: is_e_def)
      then have "parseDecimal (''0'' @ CHR ''.'' # fp) = Some (undigits10 (''0'' @ fp), - int (length fp))"
        using pm by (intro parseDecimal_noexp) auto
      moreover have "- int (length fp) = e" using nlt False by (simp add: fp_def k_def)
      moreover have "undigits10 (''0'' @ fp) = c"
      proof -
        have "undigits10 ''0'' = 0" by (simp add: undigits10_def digit_val_def)
        moreover have "undigits10 fp = c"
          unfolding fp_def undigits10_append undigits10_zeros und by simp
        ultimately show ?thesis unfolding undigits10_append [of "''0''" fp] by simp
      qed
      moreover have "positional ds e = ''0'' @ CHR ''.'' # fp"
        using nlt False by (simp add: positional_def fp_def k_def)
      ultimately show ?thesis using False by (simp add: str)
    qed
  qed
qed

subsection \<open>The round trip\<close>
lemma fts_hd: "finiteToString c e \<noteq> [] \<and> is_digit (hd (finiteToString c e))"
proof -
  define ds where "ds = digits10 c"
  have ds: "list_all is_digit ds" "ds \<noteq> []"
    by (simp_all add: ds_def digits10_digits digits10_nonempty)
  then obtain x xs where xs: "ds = x # xs" by (cases ds) auto
  then have x: "is_digit x" using ds by simp
  have z: "is_digit CHR ''0''" by (simp add: is_digit_def)
  have p: "positional ds e \<noteq> [] \<and> is_digit (hd (positional ds e))"
    using x z by (auto simp: positional_def xs hd_append)
  show ?thesis
    using p x by (auto simp: finiteToString_def Let_def ds_def [symmetric] xs)
qed

lemma checkRange_wf:
  "c \<noteq> 0 \<Longrightarrow> minE \<le> sciexp c e \<Longrightarrow> sciexp c e \<le> maxE \<Longrightarrow> checkRange s c e = Fin s c e"
  by (simp add: checkRange_def)

lemma parse_fts_mk:
  assumes "c \<noteq> 0" "c mod 10 \<noteq> 0" "minE \<le> sciexp c e" "sciexp c e \<le> maxE"
  shows "\<exists>c' e'. parseDecimal (finiteToString c e) = Some (c', e') \<and> mkDecimal s c' e' = Fin s c e"
proof (cases "sciexp c e \<le> toExpNeg \<or> toExpPos \<le> sciexp c e")
  case True
  then have "parseDecimal (finiteToString c e) = Some (c, e)" by (rule parse_fts_exp)
  moreover have "mkDecimal s c e = Fin s c e"
    using assms by (simp add: mkDecimal_def stripz_normal checkRange_wf)
  ultimately show ?thesis by blast
next
  case False
  then have p: "parseDecimal (finiteToString c e) = Some (if 0 \<le> e then (c * 10 ^ nat e, 0) else (c, e))"
    by (rule parse_fts_plain)
  show ?thesis
  proof (cases "0 \<le> e")
    case True
    have "stripz (c * 10 ^ nat e) 0 = (c, e)"
      using stripz_pow [OF assms(2), of "nat e" 0] True by simp
    then have "mkDecimal s (c * 10 ^ nat e) 0 = Fin s c e"
      using assms by (simp add: mkDecimal_def checkRange_wf)
    then show ?thesis using p True by simp
  next
    case False
    have "mkDecimal s c e = Fin s c e"
      using assms by (simp add: mkDecimal_def stripz_normal checkRange_wf)
    then show ?thesis using p False by simp
  qed
qed

lemma parseString_plain:
  assumes "parseDecimal w = Some (c, e)" "w \<noteq> []" "hd w \<noteq> CHR ''-''"
  shows "parseString w = Inr (mkDecimal False c e)"
  using assms by (simp add: parseString_def)

lemma parseString_minus:
  assumes "parseDecimal w = Some (c, e)"
  shows "parseString (CHR ''-'' # w) = Inr (mkDecimal True c e)"
  using assms by (simp add: parseString_def)

lemma digits10_0: "digits10 0 = ''0''"
  by (subst digits10.simps) (simp add: numeral_char_def NUMERALS_def)

lemma ndigits_0: "ndigits 0 = 1"
  by (subst ndigits.simps) simp

lemma parseString_toString:
  assumes "wf_dec d"
  shows "parseString (dec_toString d) = Inr (unsignZero d)"
proof (cases d)
  case NaN
  have "parseDecimal ''NaN'' = None"
    by (simp add: parseDecimal_def parse_mantissa_def is_e_def is_digit_def)
  then show ?thesis using NaN by (simp add: parseString_def)
next
  case (Infinity s)
  have "parseDecimal ''Infinity'' = None"
    by (simp add: parseDecimal_def parse_mantissa_def is_e_def is_digit_def)
  then show ?thesis using Infinity by (simp add: parseString_def)
next
  case (Fin s c e)
  show ?thesis
  proof (cases "c = 0")
    case True
    then have e: "e = 0" using assms Fin by simp
    have "finiteToString 0 0 = ''0''"
      by (simp add: finiteToString_def Let_def sciexp_def ndigits_0 digits10_0 toExpNeg_def toExpPos_def positional_def)
    moreover have "parseDecimal ''0'' = Some (0, 0)"
      by (simp add: parseDecimal_def parse_mantissa_def is_e_def is_digit_def undigits10_def digit_val_def)
    moreover have "mkDecimal False 0 0 = Fin False 0 0"
      by (simp add: mkDecimal_def stripz_normal checkRange_def)
    ultimately show ?thesis using Fin True e by (simp add: parseString_def)
  next
    case False
    then have w: "c mod 10 \<noteq> 0" "minE \<le> sciexp c e" "sciexp c e \<le> maxE"
      using assms Fin by simp_all
    obtain c' e' where p: "parseDecimal (finiteToString c e) = Some (c', e')"
      and m: "mkDecimal s c' e' = Fin s c e"
      using parse_fts_mk [OF False w, of s] by blast
    have h: "finiteToString c e \<noteq> []" "hd (finiteToString c e) \<noteq> CHR ''-''"
      using fts_hd [of c e] digit_chars by auto
    show ?thesis
    proof (cases s)
      case True
      then show ?thesis using Fin False m parseString_minus [OF p] by simp
    next
      case sf: False
      then show ?thesis using Fin False m parseString_plain [OF p h] by simp
    qed
  qed
qed

section \<open>Results of the engine\<close>

text \<open>Every result of the engine is well formed, and multiplying or dividing by a power of
  ten is exact for a coefficient within the precision.\<close>
lemma checkRange_wf_dec: "c = 0 \<or> c mod 10 \<noteq> 0 \<Longrightarrow> wf_dec (checkRange s c e)"
  by (auto simp: checkRange_def)

lemma mkDecimal_wf: "wf_dec (mkDecimal s c e)"
proof -
  obtain c' e' where st: "stripz c e = (c', e')" by (cases "stripz c e")
  then have "c' = 0 \<or> c' mod 10 \<noteq> 0" using stripz_result by blast
  then show ?thesis by (simp add: mkDecimal_def st checkRange_wf_dec)
qed

lemma finalise_wf: "wf_dec (finalise s c e)"
proof -
  obtain c1 e1 where s1: "stripz c e = (c1, e1)" by (cases "stripz c e")
  obtain c2 e2 where r: "roundsd c1 e1 = (c2, e2)" by (cases "roundsd c1 e1")
  obtain c3 e3 where s3: "stripz c2 e2 = (c3, e3)" by (cases "stripz c2 e2")
  have "c3 = 0 \<or> c3 mod 10 \<noteq> 0" using stripz_result [OF s3] by blast
  then show ?thesis by (simp add: finalise_def s1 r s3 checkRange_wf_dec)
qed

lemma dec_add_wf: "wf_dec (dec_add x y)"
  by (cases x; cases y) (simp_all add: Let_def finalise_wf)

lemma dec_sub_wf: "wf_dec (dec_sub x y)"
  by (simp add: dec_sub_def dec_add_wf)

lemma dec_mul_wf: "wf_dec (dec_mul x y)"
  by (cases x; cases y) (simp_all add: finalise_wf)

lemma dec_div_wf: "wf_dec (dec_div x y)"
  by (cases x; cases y) (simp_all add: Let_def finalise_wf)

lemma pow10_wf: "wf_dec (pow10 k)"
  by (simp add: pow10_def checkRange_wf_dec)

lemma dec_pow10_wf: "dec_pow10 y = Some p \<Longrightarrow> wf_dec p"
  by (cases y) (auto simp: pow10_wf checkRange_wf_dec split: if_splits)

lemma parseString_wf: "parseString str = Inr d \<Longrightarrow> wf_dec d"
  by (auto simp: parseString_def Let_def mkDecimal_wf split: option.splits if_splits)

lemma roundsd_small: "ndigits c \<le> precision \<Longrightarrow> roundsd c e = (c, e)"
  by (simp add: roundsd_def Let_def)

lemma finalise_exact:
  assumes "c \<noteq> 0" "c mod 10 \<noteq> 0" "ndigits c \<le> precision" "minE \<le> sciexp c e" "sciexp c e \<le> maxE"
  shows "finalise s c e = Fin s c e"
  using assms by (simp add: finalise_def stripz_normal roundsd_small checkRange_wf)

lemma finalise_zero: "finalise s 0 e = Fin s 0 0"
  by (simp add: finalise_def stripz_normal roundsd_small ndigits_0 precision_def checkRange_def)

lemma sciexp_shift: "sciexp c (e + k) = sciexp c e + k"
  by (simp add: sciexp_def)

lemma ndigits_1: "ndigits (Suc 0) = 1"
  by (subst ndigits.simps) simp

lemma pow10_fin: "int D \<le> maxE \<Longrightarrow> pow10 D = Fin False 1 (int D)"
  by (simp add: pow10_def checkRange_def sciexp_def ndigits_1 minE_def)

text \<open>Multiplying by a power of ten is exact for at most 20 significant digits.\<close>
lemma dec_mul_pow10:
  assumes "wf_dec (Fin s c e)" "ndigits c \<le> precision" "c \<noteq> 0 \<longrightarrow> sciexp c e + int D \<le> maxE" "int D \<le> maxE"
  shows "dec_mul (Fin s c e) (pow10 D) = (if c = 0 then Fin s 0 0 else Fin s c (e + int D))"
proof -
  have p: "pow10 D = Fin False 1 (int D)"
    using assms(4) by (rule pow10_fin)
  show ?thesis
  proof (cases "c = 0")
    case True
    then show ?thesis by (simp add: p finalise_zero)
  next
    case False
    then have w: "c mod 10 \<noteq> 0" "minE \<le> sciexp c e" using assms(1) by simp_all
    have "finalise s c (e + int D) = Fin s c (e + int D)"
      using False w assms(2,3) by (intro finalise_exact) (simp_all add: sciexp_shift)
    then show ?thesis using False by (simp add: p)
  qed
qed


section \<open>Calls on the heap\<close>
lemma PreciseDecimal_ok:
  "parseString str = Inr d \<Longrightarrow> PreciseDecimal str h = Inr (length (decs h), h\<lparr>decs := decs h @ [d]\<rparr>)"
  by (simp add: PreciseDecimal_def new_Decimal_def)

lemma toDecimal_DecObj:
  assumes "r < length (decs h)" "wf_dec (decs h ! r)"
  shows "toDecimal (DecObj r) h = Inr (length (decs h), h\<lparr>decs := decs h @ [unsignZero (decs h ! r)]\<rparr>)"
  using parseString_toString [OF assms(2)]
  by (simp add: toDecimal_def stringify_def PreciseDecimal_ok)

lemma parseString_digits10: "parseString (digits10 k) = Inr (mkDecimal False k 0)"
proof -
  have d: "list_all is_digit (digits10 k)" "digits10 k \<noteq> []"
    by (simp_all add: digits10_digits digits10_nonempty)
  then have "parse_mantissa (digits10 k) = Some (digits10 k, [])"
    by (rule parse_mantissa_int)
  then have "parseDecimal (digits10 k) = Some (undigits10 (digits10 k @ []), - int (length ([]::string)))"
    using digits_not_e by (intro parseDecimal_noexp) auto
  then have "parseDecimal (digits10 k) = Some (k, 0)"
    by (simp add: undigits10_digits10)
  moreover have "hd (digits10 k) \<noteq> CHR ''-''"
    using d digit_chars by (cases "digits10 k") auto
  ultimately show ?thesis using d(2) by (simp add: parseString_plain)
qed

lemma toDecimal_Num:
  "toDecimal (Num (int k)) h = Inr (length (decs h), h\<lparr>decs := decs h @ [mkDecimal False k 0]\<rparr>)"
  by (simp add: toDecimal_def stringify_def showInt_def parseString_digits10 PreciseDecimal_ok)

lemma BigVal_new_DecObj:
  assumes "r < length (decs h)" "wf_dec (decs h ! r)"
  shows "BigVal_new (DecObj r) sc cfg h =
         Inr (length (objs h),
              h\<lparr>decs := decs h @ [unsignZero (decs h ! r)],
                objs := objs h @ [\<lparr>v_n = length (decs h), v_scale = sc, v_config = cfg\<rparr>]\<rparr>)"
  using assms by (simp add: BigVal_new_def toDecimal_DecObj bind_def new_object_def)

lemma arith_dec_ok:
  assumes "wf_dec (f (magnitude this h) (decs h ! d))"
  shows "arith_dec f this d h =
         Inr (length (objs h),
              h\<lparr>decs := decs h @ [f (magnitude this h) (decs h ! d), unsignZero (f (magnitude this h) (decs h ! d))],
                objs := objs h @ [\<lparr>v_n = Suc (length (decs h)), v_scale = v_scale (objs h ! this),
                                  v_config = v_config (objs h ! this)\<rparr>]\<rparr>)"
  using assms by (simp add: arith_dec_def new_Decimal_def BigVal_new_DecObj magnitude_def)

lemma arith_plain_DecObj:
  assumes "p < length (decs h)" "wf_dec (decs h ! p)" "v_n (objs h ! this) < length (decs h)"
    and "wf_dec (f (magnitude this h) (unsignZero (decs h ! p)))"
  shows "arith_plain f this (DecObj p) h =
         Inr (length (objs h),
              h\<lparr>decs := decs h @ [unsignZero (decs h ! p),
                                  f (magnitude this h) (unsignZero (decs h ! p)),
                                  unsignZero (f (magnitude this h) (unsignZero (decs h ! p)))],
                objs := objs h @ [\<lparr>v_n = length (decs h) + 2, v_scale = v_scale (objs h ! this),
                                  v_config = v_config (objs h ! this)\<rparr>]\<rparr>)"
proof -
  let ?h1 = "h\<lparr>decs := decs h @ [unsignZero (decs h ! p)]\<rparr>"
  have m: "magnitude this ?h1 = magnitude this h"
    using assms(3) by (simp add: magnitude_def nth_append)
  have "arith_plain f this (DecObj p) h = arith_dec f this (length (decs h)) ?h1"
    using assms(1,2) by (simp add: arith_plain_def toDecimal_DecObj bind_def)
  also have "\<dots> = Inr (length (objs ?h1),
              ?h1\<lparr>decs := decs ?h1 @ [f (magnitude this ?h1) (decs ?h1 ! length (decs h)),
                                      unsignZero (f (magnitude this ?h1) (decs ?h1 ! length (decs h)))],
                objs := objs ?h1 @ [\<lparr>v_n = Suc (length (decs ?h1)), v_scale = v_scale (objs ?h1 ! this),
                                  v_config = v_config (objs ?h1 ! this)\<rparr>]\<rparr>)"
    using assms(4) by (intro arith_dec_ok) (simp add: m)
  finally show ?thesis by (simp add: m)
qed

lemma ndigits_le: "ndigits n \<le> Suc n"
proof (induction n rule: ndigits.induct)
  case (1 n)
  show ?case
  proof (cases "n < 10")
    case True
    then show ?thesis by (subst ndigits.simps) simp
  next
    case False
    then have "ndigits (n div 10) \<le> Suc (n div 10)" using 1 by simp
    moreover have "Suc (n div 10) \<le> n" using False by simp
    ultimately show ?thesis using False by (subst ndigits.simps) simp
  qed
qed

lemma stripz_value: "stripz c e = (c', e') \<Longrightarrow> e \<le> e' \<and> c' * 10 ^ nat (e' - e) = c \<and> (c \<noteq> 0 \<longrightarrow> int (ndigits c') + e' = int (ndigits c) + e)"
proof (induction c e rule: stripz.induct)
  case (1 c e)
  show ?case
  proof (cases "c \<noteq> 0 \<and> c mod 10 = 0")
    case True
    then have st: "stripz c e = stripz (c div 10) (e + 1)" by (subst stripz.simps) simp
    then have ih: "e + 1 \<le> e' \<and> c' * 10 ^ nat (e' - (e + 1)) = c div 10 \<and>
       (c div 10 \<noteq> 0 \<longrightarrow> int (ndigits c') + e' = int (ndigits (c div 10)) + (e + 1))"
      using 1 True by simp
    have c10: "c div 10 \<noteq> 0" "10 \<le> c" using True by auto
    have nd: "ndigits c = Suc (ndigits (c div 10))" using c10 by (subst ndigits.simps) simp
    have "nat (e' - e) = Suc (nat (e' - (e + 1)))" using ih by linarith
    then have "c' * 10 ^ nat (e' - e) = (c div 10) * 10" using ih by simp
    also have "\<dots> = c" using True by auto
    finally show ?thesis using ih c10 nd by simp
  next
    case False
    then have "stripz c e = (c, e)" by (subst stripz.simps) auto
    then show ?thesis using 1 by simp
  qed
qed

lemma dec_pow10_mk:
  assumes "int D \<le> maxE"
  shows "dec_pow10 (mkDecimal False D 0) = Some (pow10 D)"
proof (cases "D = 0")
  case True
  then show ?thesis by (simp add: mkDecimal_def stripz_normal checkRange_def)
next
  case False
  obtain c' e' where st: "stripz D 0 = (c', e')" by (cases "stripz D 0")
  have v: "0 \<le> e'" "c' * 10 ^ nat e' = D" "int (ndigits c') + e' = int (ndigits D)"
    using stripz_value [OF st] False by auto
  have c': "c' \<noteq> 0" using v(2) False by auto
  have "sciexp c' e' = int (ndigits D) - 1" using v(3) by (simp add: sciexp_def)
  moreover have "int (ndigits D) - 1 \<le> int D" using ndigits_le [of D] by simp
  moreover have "0 \<le> int (ndigits D) - 1" by (subst ndigits.simps) simp
  ultimately have "minE \<le> sciexp c' e'" "sciexp c' e' \<le> maxE"
    using assms by (simp_all add: minE_def)
  then have "mkDecimal False D 0 = Fin False c' e'"
    using c' by (simp add: mkDecimal_def st checkRange_wf)
  then show ?thesis using v c' by simp
qed

lemma mk10: "mkDecimal False 10 0 = Fin False 1 1"
proof -
  have "stripz 10 0 = (1, 1)"
    by (subst stripz.simps, simp, subst stripz.simps, simp)
  then show ?thesis
    by (simp add: mkDecimal_def checkRange_def sciexp_def ndigits_1 maxE_def minE_def)
qed

lemma tenPow_Num:
  assumes "int D \<le> maxE"
  shows "tenPow (Num (int D)) h =
         Inr (length (decs h) + 2, h\<lparr>decs := decs h @ [Fin False 1 1, mkDecimal False D 0, pow10 D]\<rparr>)"
proof -
  have a: "toDecimal (Num 10) h = Inr (length (decs h), h\<lparr>decs := decs h @ [Fin False 1 1]\<rparr>)"
    using toDecimal_Num [of 10 h] by (simp add: mk10)
  show ?thesis
    by (simp add: tenPow_def a bind_def toDecimal_Num dec_pow10_mk [OF assms] new_Decimal_def nth_append)
qed

subsection \<open>Scaling by a power of ten\<close>
text \<open>\<open>scaleDown\<close> and \<open>scaleUp\<close> call the closures \<open>mul\<close> and \<open>div\<close> with an engine
  object, for which \<open>toDecimalAtOriginalScale\<close> takes its \<open>toDecimal\<close> branch: the closure
  is \<open>arith_plain\<close> there.\<close>

lemma closure_on_engine_object:
  "mul this (DecObj p) h = arith_plain dec_mul this (DecObj p) h"
  "div_op this (DecObj p) h = arith_plain dec_div this (DecObj p) h"
  by (simp_all add: mul_def div_op_def arith_def arith_plain_def toDecimalAtOriginalScale_def)

lemma unsignZero_pow10: "unsignZero (pow10 D) = pow10 D"
  by (simp add: pow10_def checkRange_def)

text \<open>\<open>this.mul(toDecimal(10).pow(toDecimal(D)))\<close> and its \<open>div\<close> twin.\<close>
lemma scale_by_pow:
  assumes "int D \<le> maxE" "v_n (objs h ! this) < length (decs h)"
    and "wf_dec (f (magnitude this h) (pow10 D))"
  shows "bind (tenPow (Num (int D)) h) (\<lambda>p h1. arith_plain f this (DecObj p) h1) =
         Inr (length (objs h),
              h\<lparr>decs := decs h @ [Fin False 1 1, mkDecimal False D 0, pow10 D, pow10 D,
                                  f (magnitude this h) (pow10 D),
                                  unsignZero (f (magnitude this h) (pow10 D))],
                objs := objs h @ [\<lparr>v_n = length (decs h) + 5, v_scale = v_scale (objs h ! this),
                                  v_config = v_config (objs h ! this)\<rparr>]\<rparr>)"
proof -
  let ?h1 = "h\<lparr>decs := decs h @ [Fin False 1 1, mkDecimal False D 0, pow10 D]\<rparr>"
  let ?p = "length (decs h) + 2"
  have p: "decs ?h1 ! ?p = pow10 D" by (simp add: nth_append)
  have m: "magnitude this ?h1 = magnitude this h"
    using assms(2) by (simp add: magnitude_def nth_append)
  have w: "wf_dec (f (magnitude this ?h1) (unsignZero (decs ?h1 ! ?p)))"
    unfolding p m using assms(3) by (simp add: unsignZero_pow10)
  have a: "?p < length (decs ?h1)" and b: "wf_dec (decs ?h1 ! ?p)"
    and c: "v_n (objs ?h1 ! this) < length (decs ?h1)"
    using assms(2) unfolding p by (simp_all add: pow10_wf)
  from arith_plain_DecObj [of ?p ?h1 this f, OF a b c w] show ?thesis
    unfolding p m by (simp add: tenPow_Num [OF assms(1)] bind_def unsignZero_pow10)
qed

lemma toSmallestScale_ok:
  assumes "v_scale (objs h ! this) \<noteq> SMALLEST" "decimals (v_config (objs h ! this)) = Some D"
    and "int D \<le> maxE" "v_n (objs h ! this) < length (decs h)"
  shows "toSmallestScale this h =
         Inr (length (objs h),
              h\<lparr>decs := decs h @ [Fin False 1 1, mkDecimal False D 0, pow10 D, pow10 D,
                                  dec_mul (magnitude this h) (pow10 D),
                                  unsignZero (dec_mul (magnitude this h) (pow10 D))],
                objs := objs h @ [\<lparr>v_n = length (decs h) + 5, v_scale = SMALLEST,
                                  v_config = v_config (objs h ! this)\<rparr>]\<rparr>)"
  using assms scale_by_pow [of D h this dec_mul]
  by (simp add: toSmallestScale_def scaleDown_def decimalsOf_def dec_mul_wf set_scale_def bind_def)

lemma toNormalScale_ok:
  assumes "v_scale (objs h ! this) \<noteq> NORMAL" "decimals (v_config (objs h ! this)) = Some D"
    and "int D \<le> maxE" "v_n (objs h ! this) < length (decs h)"
  shows "toNormalScale this h =
         Inr (length (objs h),
              h\<lparr>decs := decs h @ [Fin False 1 1, mkDecimal False D 0, pow10 D, pow10 D,
                                  dec_div (magnitude this h) (pow10 D),
                                  unsignZero (dec_div (magnitude this h) (pow10 D))],
                objs := objs h @ [\<lparr>v_n = length (decs h) + 5, v_scale = NORMAL,
                                  v_config = v_config (objs h ! this)\<rparr>]\<rparr>)"
  using assms scale_by_pow [of D h this dec_div]
  by (simp add: toNormalScale_def scaleUp_def decimalsOf_def dec_div_wf set_scale_def bind_def)

lemma wf_heap_ref: "wf_heap h \<Longrightarrow> p < length (objs h) \<Longrightarrow> v_n (objs h ! p) < length (decs h)"
  by (simp add: wf_heap_def list_all_length)

lemma wf_heap_magnitude: "wf_heap h \<Longrightarrow> p < length (objs h) \<Longrightarrow> wf_dec (magnitude p h)"
  by (simp add: wf_heap_def list_all_length magnitude_def)

lemma extends_append: "extends h (h\<lparr>decs := decs h @ ds, objs := objs h @ os\<rparr>)"
  by (simp add: extends_def)

lemma fin_value_shift: "fin_value s c (e + int D) = fin_value s c e * 10 ^ D"
proof -
  have "(if 0 \<le> e + int D then 10 ^ nat (e + int D) else 1 / 10 ^ nat (- (e + int D))) =
        (if 0 \<le> e then 10 ^ nat e else 1 / 10 ^ nat (- e)) * (10::rat) ^ D"
  proof (cases "0 \<le> e")
    case True
    then have "nat (e + int D) = nat e + D" by simp
    then show ?thesis using True by (simp add: power_add)
  next
    case False
    show ?thesis
    proof (cases "0 \<le> e + int D")
      case True
      then have "D = nat (e + int D) + nat (- e)" using False by simp
      then have "(10::rat) ^ D = 10 ^ nat (e + int D) * 10 ^ nat (- e)" by (metis power_add)
      then show ?thesis using True False by simp
    next
      case nn: False
      then have "nat (- e) = nat (- (e + int D)) + D" using False by simp
      then have "(10::rat) ^ nat (- e) = 10 ^ nat (- (e + int D)) * 10 ^ D" by (metis power_add)
      then show ?thesis using nn False by simp
    qed
  qed
  then show ?thesis by (simp add: fin_value_def)
qed

subsection \<open>Evaluating the engine on numerals\<close>
lemmas engine_eval = pow10_def checkRange_def sciexp_def ndigits.simps finalise_def mkDecimal_def
  stripz.simps roundsd_def precision_def maxE_def minE_def Let_def sval_def

lemma mul_21_digits: "dec_mul (Fin False 123456789012345678901 0) (pow10 18) = Fin False 1234567890123456789 20"
  by (simp add: engine_eval)

lemmas parse_eval = parseString_def parseDecimal_def parse_mantissa_def parse_exp_def is_e_def
  is_digit_def undigits10_def digit_val_def parseHexInt_def otherLiteral_def hex_val_def

lemma parse_21_digits: "parseString ''123456789012345678901'' = Inr (Fin False 123456789012345678901 0)"
  by (simp add: parse_eval engine_eval)

lemma parse_minus_Infinity: "parseString ''-Infinity'' = Inr (Infinity True)"
  by (simp add: parse_eval engine_eval)

lemma parse_abc: "parseString ''abc'' = Inl DecimalError"
  by (simp add: parse_eval engine_eval)

section \<open>Scale conversion: claims C2 and C3\<close>
lemma BigVal_new_Str:
  "parseString str = Inr d \<Longrightarrow>
   BigVal_new (Str str) sc cfg h =
     Inr (length (objs h),
          h\<lparr>decs := decs h @ [d], objs := objs h @ [\<lparr>v_n = length (decs h), v_scale = sc, v_config = cfg\<rparr>]\<rparr>)"
  by (simp add: BigVal_new_def toDecimal_def stringify_def PreciseDecimal_ok bind_def new_object_def)

lemma BigVal_new_Num:
  "BigVal_new (Num (int k)) sc cfg h =
     Inr (length (objs h),
          h\<lparr>decs := decs h @ [mkDecimal False k 0],
            objs := objs h @ [\<lparr>v_n = length (decs h), v_scale = sc, v_config = cfg\<rparr>]\<rparr>)"
  by (simp add: BigVal_new_def toDecimal_Num bind_def new_object_def)

text \<open>
  Claim C2, as amended. For an instance of a well-formed heap whose config defines
  \<open>decimals = D\<close> (with \<open>D\<close> within the engine's exponent range): when its scale is not
  \<open>SMALLEST\<close>, \<open>toSmallestScale()\<close> returns a new instance, tagged \<open>SMALLEST\<close>, with the
  same config, and leaves every earlier object as it was; its magnitude is the engine's
  product of the receiver's magnitude and \<open>10^D\<close>, which is the receiver's magnitude times
  \<open>10^D\<close> exactly when that magnitude has at most 20 significant digits and the product
  stays within the exponent range. Symmetrically \<open>toNormalScale()\<close> returns a new instance
  tagged \<open>NORMAL\<close> holding the engine's quotient by \<open>10^D\<close>.
\<close>

theorem scale_conversion_result:
  assumes "wf_heap h" "this < length (objs h)"
    and "decimals (v_config (objs h ! this)) = Some D" "int D \<le> maxE"
  shows "(v_scale (objs h ! this) \<noteq> SMALLEST \<longrightarrow>
           returns (toSmallestScale this h) (\<lambda>q h'.
             q = length (objs h) \<and> extends h h' \<and>
             v_scale (objs h' ! q) = SMALLEST \<and> v_config (objs h' ! q) = v_config (objs h ! this) \<and>
             magnitude q h' = unsignZero (dec_mul (magnitude this h) (pow10 D)) \<and>
             (\<forall>s c e. magnitude this h = Fin s c e \<and> c \<noteq> 0 \<and> ndigits c \<le> precision \<and>
                      sciexp c e + int D \<le> maxE \<longrightarrow>
                magnitude q h' = Fin s c (e + int D) \<and>
                fin_value s c (e + int D) = fin_value s c e * 10 ^ D))) \<and>
         (v_scale (objs h ! this) \<noteq> NORMAL \<longrightarrow>
           returns (toNormalScale this h) (\<lambda>q h'.
             q = length (objs h) \<and> extends h h' \<and>
             v_scale (objs h' ! q) = NORMAL \<and> v_config (objs h' ! q) = v_config (objs h ! this) \<and>
             magnitude q h' = unsignZero (dec_div (magnitude this h) (pow10 D))))"
proof -
  have r: "v_n (objs h ! this) < length (decs h)" using assms(1,2) by (rule wf_heap_ref)
  have w: "wf_dec (magnitude this h)" using assms(1,2) by (rule wf_heap_magnitude)
  have ex: "\<And>s c e. magnitude this h = Fin s c e \<Longrightarrow> c \<noteq> 0 \<Longrightarrow> ndigits c \<le> precision \<Longrightarrow>
      sciexp c e + int D \<le> maxE \<Longrightarrow> unsignZero (dec_mul (magnitude this h) (pow10 D)) = Fin s c (e + int D)"
  proof -
    fix s c e
    assume m: "magnitude this h = Fin s c e" and c: "c \<noteq> 0" "ndigits c \<le> precision"
      "sciexp c e + int D \<le> maxE"
    have "dec_mul (Fin s c e) (pow10 D) = (if c = 0 then Fin s 0 0 else Fin s c (e + int D))"
      using w c assms(4) unfolding m by (intro dec_mul_pow10) simp_all
    then show "unsignZero (dec_mul (magnitude this h) (pow10 D)) = Fin s c (e + int D)"
      using c by (simp add: m)
  qed
  show ?thesis
    using ex
    by (auto simp: returns_def toSmallestScale_ok [OF _ assms(3,4) r] toNormalScale_ok [OF _ assms(3,4) r]
        magnitude_def nth_append extends_def fin_value_shift)
qed

lemma returns_mono: "returns m P \<Longrightarrow> (\<And>a h. P a h \<Longrightarrow> Q a h) \<Longrightarrow> returns m Q"
  by (auto simp: returns_def split: sum.splits)

lemma returns_Inr: "returns (Inr (a, h)) P = P a h"
  by (simp add: returns_def)

lemmas string_eval = finiteToString_def positional_def digits10.simps numeral_char_def NUMERALS_def
  toExpNeg_def toExpPos_def sciexp_def ndigits.simps Let_def

lemma ts: "dec_toString (Fin False 1 18) = ''1000000000000000000''"
  by (simp add: string_eval eval_nat_numeral)

text \<open>
  Witness for C2, and the scenario of the specification:
  \<open>construct(1, NORMAL, {decimals: 18}).toSmallestScale().toString()\<close> is
  \<open>1000000000000000000\<close>.
\<close>

theorem scale_conversion_result_witness:
  "returns (BigVal_new (Num 1) NORMAL \<lparr>decimals = Some 18\<rparr> empty_heap) (\<lambda>v h.
     wf_heap h \<and> v < length (objs h) \<and> decimals (v_config (objs h ! v)) = Some 18 \<and>
     int 18 \<le> maxE \<and> v_scale (objs h ! v) \<noteq> SMALLEST \<and>
     returns (toSmallestScale v h) (\<lambda>q h'.
       q \<noteq> v \<and> v_scale (objs h' ! q) = SMALLEST \<and> magnitude q h' = Fin False 1 18 \<and>
       toString q 10 h' = Inr ''1000000000000000000''))"
proof -
  define h where "h = (\<lparr>decs = [Fin False 1 0], objs = [\<lparr>v_n = 0, v_scale = NORMAL, v_config = \<lparr>decimals = Some 18\<rparr>\<rparr>]\<rparr> :: BigValScale heap)"
  have mk: "mkDecimal False (Suc 0) 0 = Fin False 1 0" by (simp add: engine_eval)
  have new: "BigVal_new (Num 1) NORMAL \<lparr>decimals = Some 18\<rparr> empty_heap = Inr (0, h)"
    using BigVal_new_Num [of 1 NORMAL "\<lparr>decimals = Some 18\<rparr>" empty_heap]
    by (simp add: mk empty_heap_def h_def)
  have hyp: "wf_heap h" "0 < length (objs h)" "decimals (v_config (objs h ! 0)) = Some 18"
    "int 18 \<le> maxE" "v_scale (objs h ! 0) \<noteq> SMALLEST"
    by (simp_all add: h_def wf_heap_def SMALLEST_def NORMAL_def engine_eval)
  have m: "magnitude 0 h = Fin False 1 0" by (simp add: h_def magnitude_def)
  have small: "ndigits 1 \<le> precision" "sciexp 1 0 + int 18 \<le> maxE"
    by (simp_all add: engine_eval)
  from scale_conversion_result [OF hyp(1-4)] hyp(5)
  have "returns (toSmallestScale 0 h) (\<lambda>q h'.
             q = length (objs h) \<and> extends h h' \<and>
             v_scale (objs h' ! q) = SMALLEST \<and> v_config (objs h' ! q) = v_config (objs h ! 0) \<and>
             magnitude q h' = unsignZero (dec_mul (magnitude 0 h) (pow10 18)) \<and>
             (\<forall>s c e. magnitude 0 h = Fin s c e \<and> c \<noteq> 0 \<and> ndigits c \<le> precision \<and>
                      sciexp c e + int 18 \<le> maxE \<longrightarrow>
                magnitude q h' = Fin s c (e + int 18) \<and>
                fin_value s c (e + int 18) = fin_value s c e * 10 ^ 18))"
    by blast
  then have "returns (toSmallestScale 0 h) (\<lambda>q h'.
       q \<noteq> 0 \<and> v_scale (objs h' ! q) = SMALLEST \<and> magnitude q h' = Fin False 1 18 \<and>
       toString q 10 h' = Inr ''1000000000000000000'')"
  proof (rule returns_mono)
    fix q h'
    assume a: "q = length (objs h) \<and> extends h h' \<and>
             v_scale (objs h' ! q) = SMALLEST \<and> v_config (objs h' ! q) = v_config (objs h ! 0) \<and>
             magnitude q h' = unsignZero (dec_mul (magnitude 0 h) (pow10 18)) \<and>
             (\<forall>s c e. magnitude 0 h = Fin s c e \<and> c \<noteq> 0 \<and> ndigits c \<le> precision \<and>
                      sciexp c e + int 18 \<le> maxE \<longrightarrow>
                magnitude q h' = Fin s c (e + int 18) \<and>
                fin_value s c (e + int 18) = fin_value s c e * 10 ^ 18)"
    then have "magnitude q h' = Fin False 1 (0 + int 18)"
      using m small by blast
    then have mq: "magnitude q h' = Fin False 1 18" by simp
    then have "toString q 10 h' = Inr ''1000000000000000000''"
      using ts by (simp add: toString_def magnitude_def)
    moreover have "q = length (objs h)" "v_scale (objs h' ! q) = SMALLEST"
      using a by blast+
    ultimately show "q \<noteq> 0 \<and> v_scale (objs h' ! q) = SMALLEST \<and> magnitude q h' = Fin False 1 18 \<and>
       toString q 10 h' = Inr ''1000000000000000000''"
      using mq by (simp add: h_def)
  qed
  then show ?thesis using hyp by (simp add: new returns_Inr)
qed

text \<open>
  Counterexample to C2 as stated: a magnitude of 21 significant digits at \<open>NORMAL\<close> scale
  with \<open>decimals = 18\<close>. The engine rounds the product to 20 significant digits, so the
  result is not the magnitude times \<open>10^18\<close>.
\<close>

theorem toSmallestScale_rounds_counterexample:
  "magnitude_of (bind (BigVal_new (Str ''123456789012345678901'') NORMAL \<lparr>decimals = Some 18\<rparr> empty_heap)
                   toSmallestScale) = Inr (Fin False 1234567890123456789 20) \<and>
   fin_value False 1234567890123456789 20 \<noteq> fin_value False 123456789012345678901 0 * 10 ^ 18"
proof -
  have "toSmallestScale 0 \<lparr>decs = [Fin False 123456789012345678901 0],
          objs = [\<lparr>v_n = 0, v_scale = NORMAL, v_config = \<lparr>decimals = Some 18\<rparr>\<rparr>]\<rparr> = 
        Inr (1, \<lparr>decs = [Fin False 123456789012345678901 0, Fin False 1 1, mkDecimal False 18 0, pow10 18, pow10 18,
                    dec_mul (Fin False 123456789012345678901 0) (pow10 18),
                    unsignZero (dec_mul (Fin False 123456789012345678901 0) (pow10 18))],
                 objs = [\<lparr>v_n = 0, v_scale = NORMAL, v_config = \<lparr>decimals = Some 18\<rparr>\<rparr>,
                         \<lparr>v_n = 6, v_scale = SMALLEST, v_config = \<lparr>decimals = Some 18\<rparr>\<rparr>]\<rparr>)"
    using toSmallestScale_ok [of "\<lparr>decs = [Fin False 123456789012345678901 0],
          objs = [\<lparr>v_n = 0, v_scale = NORMAL, v_config = \<lparr>decimals = Some 18\<rparr>\<rparr>]\<rparr>" 0 18]
    by (simp add: SMALLEST_def NORMAL_def maxE_def magnitude_def)
  then have "magnitude_of (bind (BigVal_new (Str ''123456789012345678901'') NORMAL \<lparr>decimals = Some 18\<rparr> empty_heap)
                   toSmallestScale) = Inr (Fin False 1234567890123456789 20)"
    by (simp add: BigVal_new_Str [OF parse_21_digits] empty_heap_def bind_def magnitude_of_def magnitude_def mul_21_digits)
  moreover have "fin_value False 1234567890123456789 20 \<noteq> fin_value False 123456789012345678901 0 * 10 ^ 18"
    by (simp add: fin_value_def sval_def)
  ultimately show ?thesis by simp
qed

lemma bind_Inr: "bind (Inr (a, h)) f = f a h"
  by (simp add: bind_def)

lemma bind_assoc: "bind (bind m f) g = bind m (\<lambda>a h. bind (f a h) g)"
  by (cases m) (auto simp: bind_def)


lemma unsignZero_nonzero: "c \<noteq> 0 \<Longrightarrow> unsignZero (Fin s c e) = Fin s c e"
  by simp


lemma BigVal_new_Str_empty:
  "parseString str = Inr d \<Longrightarrow>
   BigVal_new (Str str) sc cfg empty_heap =
     Inr (0, \<lparr>decs = [d], objs = [\<lparr>v_n = 0, v_scale = sc, v_config = cfg\<rparr>]\<rparr>)"
  using BigVal_new_Str [of str d sc cfg empty_heap] by (simp add: empty_heap_def)

lemma toSmallestScale_magnitude:
  assumes "v_scale (objs h ! this) \<noteq> SMALLEST" "decimals (v_config (objs h ! this)) = Some D"
    and "int D \<le> maxE" "v_n (objs h ! this) < length (decs h)"
  shows "magnitude_of (toSmallestScale this h) = Inr (unsignZero (dec_mul (magnitude this h) (pow10 D)))"
  by (simp add: toSmallestScale_ok [OF assms] magnitude_of_def magnitude_def nth_append)








section \<open>Operands of the closures: claim C1\<close>
lemma operand_resolved:
  assumes "wf_heap h" "r < length (objs h)" "v < length (objs h)"
    and "v_scale (objs h ! r) = SMALLEST \<or> v_scale (objs h ! r) = NORMAL"
    and "decimals (v_config (objs h ! v)) = Some D" "int D \<le> maxE"
  shows "\<exists>d h1. toDecimalAtOriginalScale (BigValObj v) r h = Inr (d, h1) \<and>
           decs h1 ! d = atScale (v_scale (objs h ! r)) (v_scale (objs h ! v)) D (magnitude v h) \<and>
           magnitude r h1 = magnitude r h \<and> objs h1 ! r = objs h ! r \<and> extends h h1"
proof -
  have rv: "v_n (objs h ! v) < length (decs h)" using assms(1,3) by (rule wf_heap_ref)
  have rr: "v_n (objs h ! r) < length (decs h)" using assms(1,2) by (rule wf_heap_ref)
  show ?thesis
  proof (cases "v_scale (objs h ! v) = v_scale (objs h ! r)")
    case True
    then have "toScale v (v_scale (objs h ! r)) h = Inr (v, h)"
      using assms(4) by (auto simp: toScale_def toSmallestScale_def toNormalScale_def)
    then show ?thesis
      using True by (simp add: toDecimalAtOriginalScale_def bind_Inr atScale_def magnitude_def extends_def)
  next
    case False
    show ?thesis
    proof (cases "v_scale (objs h ! r) = SMALLEST")
      case True
      then have ne: "v_scale (objs h ! v) \<noteq> SMALLEST" using False by simp
      show ?thesis
        using True False rr assms(2)
        by (simp add: toDecimalAtOriginalScale_def toScale_def toSmallestScale_ok [OF ne assms(5,6) rv]
            bind_Inr atScale_def magnitude_def nth_append extends_def)
    next
      case nS: False
      then have N: "v_scale (objs h ! r) = NORMAL" using assms(4) by simp
      then have ne: "v_scale (objs h ! v) \<noteq> NORMAL" using False by simp
      show ?thesis
        using N nS False rr assms(2)
        by (simp add: toDecimalAtOriginalScale_def toScale_def toNormalScale_ok [OF ne assms(5,6) rv]
            bind_Inr atScale_def magnitude_def nth_append extends_def)
    qed
  qed
qed

lemma arith_aligned:
  assumes "wf_heap h" "r < length (objs h)" "v < length (objs h)"
    and "v_scale (objs h ! r) = SMALLEST \<or> v_scale (objs h ! r) = NORMAL"
    and "decimals (v_config (objs h ! v)) = Some D" "int D \<le> maxE"
    and "\<And>x y. wf_dec (f x y)"
  shows "returns (arith f r (BigValObj v) h) (\<lambda>q h'.
           magnitude q h' =
             unsignZero (f (magnitude r h) (atScale (v_scale (objs h ! r)) (v_scale (objs h ! v)) D (magnitude v h))) \<and>
           v_scale (objs h' ! q) = v_scale (objs h ! r) \<and>
           v_config (objs h' ! q) = v_config (objs h ! r))"
proof -
  obtain d h1 where a: "toDecimalAtOriginalScale (BigValObj v) r h = Inr (d, h1)"
    and b: "decs h1 ! d = atScale (v_scale (objs h ! r)) (v_scale (objs h ! v)) D (magnitude v h)"
    and c: "magnitude r h1 = magnitude r h" "objs h1 ! r = objs h ! r"
    using operand_resolved [OF assms(1-6)] by blast
  have "wf_dec (f (magnitude r h1) (decs h1 ! d))" by (rule assms(7))
  then show ?thesis
    by (simp add: arith_def a bind_Inr arith_dec_ok returns_Inr magnitude_def [of "length (objs h1)"] nth_append b c)
qed

lemma compare_aligned:
  assumes "wf_heap h" "r < length (objs h)" "v < length (objs h)"
    and "v_scale (objs h ! r) = SMALLEST \<or> v_scale (objs h ! r) = NORMAL"
    and "decimals (v_config (objs h ! v)) = Some D" "int D \<le> maxE"
  shows "returns (compare g r (BigValObj v) h) (\<lambda>b h'.
           b = g (magnitude r h) (atScale (v_scale (objs h ! r)) (v_scale (objs h ! v)) D (magnitude v h)))"
proof -
  obtain d h1 where a: "toDecimalAtOriginalScale (BigValObj v) r h = Inr (d, h1)"
    and b: "decs h1 ! d = atScale (v_scale (objs h ! r)) (v_scale (objs h ! v)) D (magnitude v h)"
    and c: "magnitude r h1 = magnitude r h" "objs h1 ! r = objs h ! r"
    using operand_resolved [OF assms(1-6)] by blast
  show ?thesis
    using c(1) by (simp add: compare_def a bind_Inr returns_Inr b magnitude_def)
qed

lemma one_at_SMALLEST: "atScale SMALLEST NORMAL 18 (Fin False 1 0) = Fin False 1 18"
  by (simp add: atScale_def SMALLEST_def NORMAL_def engine_eval)

text \<open>
  Claim C1, as amended. Let \<open>r\<close> and \<open>v\<close> be instances of a well-formed heap, \<open>r\<close> at one
  of the two recognized scales, and \<open>v\<close> with \<open>decimals = D\<close> in its own config, \<open>D\<close> not
  above the exponent limit of the engine. Then every arithmetic closure of \<open>r\<close> applied to
  \<open>v\<close> returns a new instance with the scale and config of \<open>r\<close> whose magnitude is the
  engine's operation on the magnitude of \<open>r\<close> and the magnitude of \<open>v\<close> converted to the
  scale of \<open>r\<close> by the decimals of \<open>v\<close>, and every comparison closure compares the magnitude
  of \<open>r\<close> with that converted magnitude. In particular, when \<open>r\<close> is at \<open>SMALLEST\<close> scale
  and \<open>v\<close> is the value 1 at \<open>NORMAL\<close> scale with \<open>decimals = 18\<close> in its config, \<open>add\<close>
  adds \<open>1000000000000000000\<close> (the value \<open>Fin False 1 18\<close>) to the magnitude of \<open>r\<close>.
\<close>

theorem operand_converted_to_receiver_scale:
  fixes h :: "BigValScale heap" and r v D :: nat
  defines "x \<equiv> magnitude r h"
    and "y \<equiv> atScale (v_scale (objs h ! r)) (v_scale (objs h ! v)) D (magnitude v h)"
  assumes "wf_heap h" "r < length (objs h)" "v < length (objs h)"
    and "v_scale (objs h ! r) = SMALLEST \<or> v_scale (objs h ! r) = NORMAL"
    and "decimals (v_config (objs h ! v)) = Some D" "int D \<le> maxE"
  shows "returns (add r (BigValObj v) h) (\<lambda>q h'.
           magnitude q h' = unsignZero (dec_add x y) \<and>
           v_scale (objs h' ! q) = v_scale (objs h ! r) \<and> v_config (objs h' ! q) = v_config (objs h ! r)) \<and>
         returns (sub r (BigValObj v) h) (\<lambda>q h'.
           magnitude q h' = unsignZero (dec_sub x y) \<and>
           v_scale (objs h' ! q) = v_scale (objs h ! r) \<and> v_config (objs h' ! q) = v_config (objs h ! r)) \<and>
         returns (mul r (BigValObj v) h) (\<lambda>q h'.
           magnitude q h' = unsignZero (dec_mul x y) \<and>
           v_scale (objs h' ! q) = v_scale (objs h ! r) \<and> v_config (objs h' ! q) = v_config (objs h ! r)) \<and>
         returns (div_op r (BigValObj v) h) (\<lambda>q h'.
           magnitude q h' = unsignZero (dec_div x y) \<and>
           v_scale (objs h' ! q) = v_scale (objs h ! r) \<and> v_config (objs h' ! q) = v_config (objs h ! r)) \<and>
         returns (gt r (BigValObj v) h) (\<lambda>b h'. b = dec_gt x y) \<and>
         returns (gte r (BigValObj v) h) (\<lambda>b h'. b = dec_gte x y) \<and>
         returns (lt r (BigValObj v) h) (\<lambda>b h'. b = dec_lt x y) \<and>
         returns (lte r (BigValObj v) h) (\<lambda>b h'. b = dec_lte x y) \<and>
         returns (eq r (BigValObj v) h) (\<lambda>b h'. b = dec_eq x y) \<and>
         (v_scale (objs h ! r) = SMALLEST \<and> v_scale (objs h ! v) = NORMAL \<and> D = 18 \<and>
          magnitude v h = Fin False 1 0 \<longrightarrow> y = Fin False 1 18)"
proof -
  note a = assms(3-8)
  have "v_scale (objs h ! r) = SMALLEST \<and> v_scale (objs h ! v) = NORMAL \<and> D = 18 \<and>
          magnitude v h = Fin False 1 0 \<longrightarrow> y = Fin False 1 18"
    using one_at_SMALLEST by (simp add: y_def)
  then show ?thesis
    unfolding x_def y_def add_def sub_def mul_def div_op_def gt_def gte_def lt_def lte_def eq_def
    using arith_aligned [OF a, of dec_add] arith_aligned [OF a, of dec_sub]
      arith_aligned [OF a, of dec_mul] arith_aligned [OF a, of dec_div]
      compare_aligned [OF a, of dec_gt] compare_aligned [OF a, of dec_gte]
      compare_aligned [OF a, of dec_lt] compare_aligned [OF a, of dec_lte]
      compare_aligned [OF a, of dec_eq]
    by (simp add: dec_add_wf dec_sub_wf dec_mul_wf dec_div_wf)
qed

lemma toString_sum: "dec_toString (Fin False 1000000000000000005 0) = ''1000000000000000005''"
  by (simp add: string_eval)

lemma add_5_pow18: "unsignZero (dec_add (Fin False 5 0) (Fin False 1 18)) = Fin False 1000000000000000005 0"
  by (simp add: engine_eval)

text \<open>
  Witness for C1: \<open>construct(5).add(construct(1, NORMAL))\<close> with the default config prints as
  \<open>1000000000000000005\<close>.
\<close>

theorem operand_converted_to_receiver_scale_witness:
  "returns (BigVal_new (Num 5) SMALLEST defaultConfig empty_heap) (\<lambda>r h0.
     returns (BigVal_new (Num 1) NORMAL defaultConfig h0) (\<lambda>v h.
       wf_heap h \<and> r < length (objs h) \<and> v < length (objs h) \<and>
       v_scale (objs h ! r) = SMALLEST \<and> v_scale (objs h ! v) = NORMAL \<and>
       decimals (v_config (objs h ! v)) = Some 18 \<and>
       returns (add r (BigValObj v) h) (\<lambda>q h'.
         magnitude q h' = Fin False 1000000000000000005 0 \<and>
         v_scale (objs h' ! q) = SMALLEST \<and>
         toString q 10 h' = Inr ''1000000000000000005'')))"
proof -
  define h0 where "h0 = (\<lparr>decs = [Fin False 5 0],
     objs = [\<lparr>v_n = 0, v_scale = SMALLEST, v_config = defaultConfig\<rparr>]\<rparr> :: BigValScale heap)"
  define h where "h = (\<lparr>decs = [Fin False 5 0, Fin False 1 0],
     objs = [\<lparr>v_n = 0, v_scale = SMALLEST, v_config = defaultConfig\<rparr>,
             \<lparr>v_n = 1, v_scale = NORMAL, v_config = defaultConfig\<rparr>]\<rparr> :: BigValScale heap)"
  have mk: "mkDecimal False 5 0 = Fin False 5 0" "mkDecimal False (Suc 0) 0 = Fin False 1 0"
    by (simp_all add: engine_eval)
  have new0: "BigVal_new (Num 5) SMALLEST defaultConfig empty_heap = Inr (0, h0)"
    using BigVal_new_Num [of 5 SMALLEST defaultConfig empty_heap] by (simp add: mk empty_heap_def h0_def)
  have new1: "BigVal_new (Num 1) NORMAL defaultConfig h0 = Inr (1, h)"
    using BigVal_new_Num [of 1 NORMAL defaultConfig h0] by (simp add: mk h0_def h_def)
  have hyp: "wf_heap h" "0 < length (objs h)" "1 < length (objs h)"
    "v_scale (objs h ! 0) = SMALLEST \<or> v_scale (objs h ! 0) = NORMAL"
    "decimals (v_config (objs h ! 1)) = Some 18" "int 18 \<le> maxE"
    by (simp_all add: h_def wf_heap_def defaultConfig_def engine_eval)
  have sc: "v_scale (objs h ! 0) = SMALLEST" "v_scale (objs h ! 1) = NORMAL"
    "magnitude 1 h = Fin False 1 0" "magnitude 0 h = Fin False 5 0"
    by (simp_all add: h_def magnitude_def)
  from operand_converted_to_receiver_scale [OF hyp]
  have y: "atScale (v_scale (objs h ! 0)) (v_scale (objs h ! 1)) 18 (magnitude 1 h) = Fin False 1 18"
    and r: "returns (add 0 (BigValObj 1) h) (\<lambda>q h'.
           magnitude q h' = unsignZero (dec_add (magnitude 0 h)
             (atScale (v_scale (objs h ! 0)) (v_scale (objs h ! 1)) 18 (magnitude 1 h))) \<and>
           v_scale (objs h' ! q) = v_scale (objs h ! 0) \<and> v_config (objs h' ! q) = v_config (objs h ! 0))"
    using sc by blast+
  from r have "returns (add 0 (BigValObj 1) h) (\<lambda>q h'.
         magnitude q h' = Fin False 1000000000000000005 0 \<and>
         v_scale (objs h' ! q) = SMALLEST \<and>
         toString q 10 h' = Inr ''1000000000000000005'')"
  proof (rule returns_mono)
    fix q h'
    assume a: "magnitude q h' = unsignZero (dec_add (magnitude 0 h)
             (atScale (v_scale (objs h ! 0)) (v_scale (objs h ! 1)) 18 (magnitude 1 h))) \<and>
           v_scale (objs h' ! q) = v_scale (objs h ! 0) \<and> v_config (objs h' ! q) = v_config (objs h ! 0)"
    then have m: "magnitude q h' = Fin False 1000000000000000005 0"
      unfolding y sc(4) add_5_pow18 by simp
    then have "toString q 10 h' = Inr ''1000000000000000005''"
      using toString_sum by (simp add: toString_def magnitude_def)
    then show "magnitude q h' = Fin False 1000000000000000005 0 \<and>
         v_scale (objs h' ! q) = SMALLEST \<and>
         toString q 10 h' = Inr ''1000000000000000005''"
      using a m sc(1) by simp
  qed
  then show ?thesis
    using hyp(1-3,5) sc(1,2) by (simp add: new0 new1 returns_Inr)
qed

lemma returns_magnitude_of:
  "returns m (\<lambda>q h'. magnitude q h' = d \<and> P q h') \<Longrightarrow> magnitude_of m = Inr d"
  by (cases m) (auto simp: returns_def magnitude_of_def)

lemma parse_undefined: "parseString ''undefined'' = Inl DecimalError"
  by (simp add: parse_eval engine_eval)

lemma tenPow_Undefined: "tenPow Undefined h = Inl DecimalError"
  using toDecimal_Num [of 10 h]
  by (simp add: tenPow_def bind_def toDecimal_def [of Undefined] stringify_def PreciseDecimal_def parse_undefined)

lemma add_5_100: "unsignZero (dec_add (Fin False 5 0) (atScale SMALLEST NORMAL 2 (Fin False 1 0))) = Fin False 105 0"
  by (simp add: atScale_def SMALLEST_def NORMAL_def engine_eval)

text \<open>
  Counterexample to C1 as stated. With \<open>decimals = 18\<close> in the config of the receiver and
  \<open>decimals = 2\<close> in the config of the operand,
  \<open>construct(5, SMALLEST, {decimals: 18}).add(construct(1, NORMAL, {decimals: 2}))\<close> has the
  magnitude 105: the operand is converted by its own decimals, and 100 is added, not
  \<open>1000000000000000000\<close>. With an operand whose config defines no decimals the conversion
  throws the engine's error, and with a receiver built with the tag 5 it throws
  \<open>Unrecognized scale\<close>; in both cases nothing is combined.
\<close>

theorem operand_conversion_counterexample:
  "magnitude_of (bind (BigVal_new (Num 5) SMALLEST \<lparr>decimals = Some 18\<rparr> empty_heap)
                   (with_new add (Num 1) NORMAL \<lparr>decimals = Some 2\<rparr>)) = Inr (Fin False 105 0) \<and>
   magnitude_of (bind (BigVal_new (Num 5) SMALLEST \<lparr>decimals = Some 18\<rparr> empty_heap)
                   (with_new add (Num 1) NORMAL \<lparr>decimals = None\<rparr>)) = Inl DecimalError \<and>
   magnitude_of (bind (BigVal_new (Num 5) 5 \<lparr>decimals = Some 18\<rparr> empty_heap)
                   (with_new add (Num 1) NORMAL \<lparr>decimals = Some 18\<rparr>)) = Inl UnrecognizedScale"
proof -
  have mk: "mkDecimal False 5 0 = Fin False 5 0" "mkDecimal False (Suc 0) 0 = Fin False 1 0"
    by (simp_all add: engine_eval)
  have new0: "BigVal_new (Num 5) sc cfg empty_heap =
      Inr (0, \<lparr>decs = [Fin False 5 0], objs = [\<lparr>v_n = 0, v_scale = sc, v_config = cfg\<rparr>]\<rparr>)" for sc cfg
    using BigVal_new_Num [of 5 sc cfg empty_heap] by (simp add: mk empty_heap_def)
  have new1: "BigVal_new (Num 1) sc' cfg' \<lparr>decs = [Fin False 5 0], objs = [\<lparr>v_n = 0, v_scale = sc, v_config = cfg\<rparr>]\<rparr> =
      Inr (1, \<lparr>decs = [Fin False 5 0, Fin False 1 0],
               objs = [\<lparr>v_n = 0, v_scale = sc, v_config = cfg\<rparr>, \<lparr>v_n = 1, v_scale = sc', v_config = cfg'\<rparr>]\<rparr>)"
    for sc sc' cfg cfg'
    using BigVal_new_Num [of 1 sc' cfg' "\<lparr>decs = [Fin False 5 0], objs = [\<lparr>v_n = 0, v_scale = sc, v_config = cfg\<rparr>]\<rparr>"]
    by (simp add: mk)
  define h where "h = (\<lparr>decs = [Fin False 5 0, Fin False 1 0],
     objs = [\<lparr>v_n = 0, v_scale = SMALLEST, v_config = \<lparr>decimals = Some 18\<rparr>\<rparr>,
             \<lparr>v_n = 1, v_scale = NORMAL, v_config = \<lparr>decimals = Some 2\<rparr>\<rparr>]\<rparr> :: BigValScale heap)"
  have hyp: "wf_heap h" "0 < length (objs h)" "1 < length (objs h)"
    "v_scale (objs h ! 0) = SMALLEST \<or> v_scale (objs h ! 0) = NORMAL"
    "decimals (v_config (objs h ! 1)) = Some 2" "int 2 \<le> maxE"
    by (simp_all add: h_def wf_heap_def engine_eval)
  have sc: "v_scale (objs h ! 0) = SMALLEST" "v_scale (objs h ! 1) = NORMAL"
    "magnitude 1 h = Fin False 1 0" "magnitude 0 h = Fin False 5 0"
    by (simp_all add: h_def magnitude_def)
  have "returns (arith dec_add 0 (BigValObj 1) h) (\<lambda>q h'.
           magnitude q h' = Fin False 105 0 \<and>
           v_scale (objs h' ! q) = v_scale (objs h ! 0) \<and>
           v_config (objs h' ! q) = v_config (objs h ! 0))"
    using arith_aligned [OF hyp, of dec_add] unfolding sc add_5_100 by (simp add: dec_add_wf)
  then have "magnitude_of (add 0 (BigValObj 1) h) = Inr (Fin False 105 0)"
    unfolding add_def by (rule returns_magnitude_of)
  then have a: "magnitude_of (bind (BigVal_new (Num 5) SMALLEST \<lparr>decimals = Some 18\<rparr> empty_heap)
                   (with_new add (Num 1) NORMAL \<lparr>decimals = Some 2\<rparr>)) = Inr (Fin False 105 0)"
    by (simp add: new0 new1 bind_Inr with_new_def h_def)
  have "add 0 (BigValObj 1) \<lparr>decs = [Fin False 5 0, Fin False 1 0],
     objs = [\<lparr>v_n = 0, v_scale = SMALLEST, v_config = \<lparr>decimals = Some 18\<rparr>\<rparr>,
             \<lparr>v_n = 1, v_scale = NORMAL, v_config = \<lparr>decimals = None\<rparr>\<rparr>]\<rparr> = Inl DecimalError"
    by (simp add: add_def arith_def toDecimalAtOriginalScale_def toScale_def toSmallestScale_def
        scaleDown_def decimalsOf_def tenPow_Undefined bind_def SMALLEST_def NORMAL_def)
  then have b: "magnitude_of (bind (BigVal_new (Num 5) SMALLEST \<lparr>decimals = Some 18\<rparr> empty_heap)
                   (with_new add (Num 1) NORMAL \<lparr>decimals = None\<rparr>)) = Inl DecimalError"
    by (simp add: new0 new1 bind_Inr with_new_def magnitude_of_def)
  have "add 0 (BigValObj 1) \<lparr>decs = [Fin False 5 0, Fin False 1 0],
     objs = [\<lparr>v_n = 0, v_scale = 5, v_config = \<lparr>decimals = Some 18\<rparr>\<rparr>,
             \<lparr>v_n = 1, v_scale = NORMAL, v_config = \<lparr>decimals = Some 18\<rparr>\<rparr>]\<rparr> = Inl UnrecognizedScale"
    by (simp add: add_def arith_def toDecimalAtOriginalScale_def toScale_def bind_def SMALLEST_def NORMAL_def)
  then have c: "magnitude_of (bind (BigVal_new (Num 5) 5 \<lparr>decimals = Some 18\<rparr> empty_heap)
                   (with_new add (Num 1) NORMAL \<lparr>decimals = Some 18\<rparr>)) = Inl UnrecognizedScale"
    by (simp add: new0 new1 bind_Inr with_new_def magnitude_of_def)
  show ?thesis using a b c by (intro conjI)
qed

section \<open>The closures only allocate: claim C4\<close>
lemma extends_refl: "extends h h"
  by (simp add: extends_def)

lemma extends_trans: "extends h h1 \<Longrightarrow> extends h1 h2 \<Longrightarrow> extends h h2"
  by (auto simp: extends_def intro: prefix_order.trans)

lemma extends_length: "extends h h' \<Longrightarrow> length (objs h) \<le> length (objs h') \<and> length (decs h) \<le> length (decs h')"
  by (simp add: extends_def prefix_length_le)

lemma extends_nth:
  "extends h h' \<Longrightarrow> (p < length (objs h) \<longrightarrow> objs h' ! p = objs h ! p) \<and> (d < length (decs h) \<longrightarrow> decs h' ! d = decs h ! d)"
  by (auto simp: extends_def prefix_def nth_append)

lemma prefix_update_beyond: "prefix xs ys \<Longrightarrow> length xs \<le> n \<Longrightarrow> prefix xs (ys[n := y])"
  by (auto simp: prefix_def list_update_append)

lemma new_Decimal_ext: "new_Decimal d h = (r, h') \<Longrightarrow> extends h h' \<and> objs h' = objs h"
  by (auto simp: new_Decimal_def extends_def)

lemma PreciseDecimal_ext: "PreciseDecimal str h = Inr (r, h') \<Longrightarrow> extends h h' \<and> objs h' = objs h"
  by (auto simp: PreciseDecimal_def new_Decimal_def extends_def split: sum.splits)

lemma toDecimal_ext: "toDecimal a h = Inr (r, h') \<Longrightarrow> extends h h' \<and> objs h' = objs h"
  unfolding toDecimal_def by (rule PreciseDecimal_ext)

lemma bind_InrE:
  assumes "bind m f = Inr (b, h')"
  obtains a h1 where "m = Inr (a, h1)" "f a h1 = Inr (b, h')"
  using assms by (cases m) (auto simp: bind_def)

lemma BigVal_new_ext:
  assumes "BigVal_new s sc cfg h = Inr (q, h')"
  shows "extends h h' \<and> q = length (objs h) \<and> length (objs h') = Suc (length (objs h))"
proof -
  have step: "\<And>a v. bind (toDecimal a h) (\<lambda>d h1. Inr (new_object (v d h1) h1)) = Inr (q, h') \<Longrightarrow>
    extends h h' \<and> q = length (objs h) \<and> length (objs h') = Suc (length (objs h))"
  proof -
    fix a v
    assume "bind (toDecimal a h) (\<lambda>d h1. Inr (new_object (v d h1) h1)) = Inr (q, h')"
    then obtain d h1 where t: "toDecimal a h = Inr (d, h1)" and n: "new_object (v d h1) h1 = (q, h')"
      by (elim bind_InrE) auto
    have "extends h h1" "objs h1 = objs h" using toDecimal_ext [OF t] by simp_all
    moreover have "extends h1 h'" "q = length (objs h1)" "length (objs h') = Suc (length (objs h1))"
      using n by (auto simp: new_object_def extends_def)
    ultimately show "extends h h' \<and> q = length (objs h) \<and> length (objs h') = Suc (length (objs h))"
      by (auto intro: extends_trans)
  qed
  show ?thesis
    using assms by (cases s) (auto simp: BigVal_new_def intro!: step)
qed

lemma arith_dec_ext:
  assumes "arith_dec f this d h = Inr (q, h')"
  shows "extends h h' \<and> length (objs h) \<le> q \<and> q < length (objs h')"
proof -
  obtain r h1 where n: "new_Decimal (f (decs h ! v_n (objs h ! this)) (decs h ! d)) h = (r, h1)"
    by (cases "new_Decimal (f (decs h ! v_n (objs h ! this)) (decs h ! d)) h")
  then have b: "BigVal_new (DecObj r) (v_scale (objs h1 ! this)) (v_config (objs h1 ! this)) h1 = Inr (q, h')"
    using assms by (simp add: arith_dec_def)
  have "extends h h1" "objs h1 = objs h" using new_Decimal_ext [OF n] by simp_all
  then show ?thesis using BigVal_new_ext [OF b] by (auto intro: extends_trans)
qed

lemma arith_plain_ext:
  assumes "arith_plain f this v h = Inr (q, h')"
  shows "extends h h' \<and> length (objs h) \<le> q \<and> q < length (objs h')"
proof -
  obtain d h1 where t: "toDecimal v h = Inr (d, h1)" and a: "arith_dec f this d h1 = Inr (q, h')"
    using assms unfolding arith_plain_def by (elim bind_InrE)
  have "extends h h1" "objs h1 = objs h" using toDecimal_ext [OF t] by simp_all
  then show ?thesis using arith_dec_ext [OF a] by (auto intro: extends_trans)
qed

lemma tenPow_ext:
  assumes "tenPow v h = Inr (p, h')"
  shows "extends h h' \<and> objs h' = objs h"
proof -
  from assms [unfolded tenPow_def]
  obtain t h1 where a: "toDecimal (Num 10) h = Inr (t, h1)"
    and b: "bind (toDecimal v h1) (\<lambda>y h2. case dec_pow10 (decs h2 ! y) of None \<Rightarrow> Inl Unmodelled
              | Some p \<Rightarrow> Inr (new_Decimal p h2)) = Inr (p, h')"
    by (rule bind_InrE)
  from b
  obtain y h2 where c: "toDecimal v h1 = Inr (y, h2)"
    and d: "(case dec_pow10 (decs h2 ! y) of None \<Rightarrow> Inl Unmodelled | Some p \<Rightarrow> Inr (new_Decimal p h2)) = Inr (p, h')"
    by (rule bind_InrE)
  obtain z where "new_Decimal z h2 = (p, h')" using d by (auto split: option.splits)
  then have "extends h2 h'" "objs h' = objs h2" using new_Decimal_ext by blast+
  moreover have "extends h h1" "objs h1 = objs h" using toDecimal_ext [OF a] by simp_all
  moreover have "extends h1 h2" "objs h2 = objs h1" using toDecimal_ext [OF c] by simp_all
  ultimately show ?thesis by (auto intro: extends_trans)
qed

lemma scale_by_ext:
  assumes "bind (tenPow v h) (\<lambda>p h1. arith_plain f this (DecObj p) h1) = Inr (q, h')"
  shows "extends h h' \<and> length (objs h) \<le> q \<and> q < length (objs h')"
proof -
  obtain p h1 where a: "tenPow v h = Inr (p, h1)" and b: "arith_plain f this (DecObj p) h1 = Inr (q, h')"
    using assms by (elim bind_InrE)
  have "extends h h1" "objs h1 = objs h" using tenPow_ext [OF a] by simp_all
  then show ?thesis using arith_plain_ext [OF b] by (auto intro: extends_trans)
qed

lemma set_scale_ext: "extends h h1 \<Longrightarrow> length (objs h) \<le> n \<Longrightarrow> extends h (set_scale n s h1)"
  by (simp add: extends_def set_scale_def prefix_update_beyond)

lemma toSmallestScale_ext:
  assumes "toSmallestScale this h = Inr (q, h')"
  shows "extends h h'"
proof (cases "v_scale (objs h ! this) = SMALLEST")
  case True
  then show ?thesis using assms by (simp add: toSmallestScale_def extends_refl)
next
  case False
  then obtain n h1 where a: "scaleDown this (decimalsOf (v_config (objs h ! this))) h = Inr (n, h1)"
    and b: "h' = set_scale n SMALLEST h1"
    using assms unfolding toSmallestScale_def by (auto elim!: bind_InrE)
  have "extends h h1 \<and> length (objs h) \<le> n \<and> n < length (objs h1)"
    using a unfolding scaleDown_def by (rule scale_by_ext)
  then show ?thesis using b by (simp add: set_scale_ext)
qed

lemma toNormalScale_ext:
  assumes "toNormalScale this h = Inr (q, h')"
  shows "extends h h'"
proof (cases "v_scale (objs h ! this) = NORMAL")
  case True
  then show ?thesis using assms by (simp add: toNormalScale_def extends_refl)
next
  case False
  then obtain n h1 where a: "scaleUp this (decimalsOf (v_config (objs h ! this))) h = Inr (n, h1)"
    and b: "h' = set_scale n NORMAL h1"
    using assms unfolding toNormalScale_def by (auto elim!: bind_InrE)
  have "extends h h1 \<and> length (objs h) \<le> n \<and> n < length (objs h1)"
    using a unfolding scaleUp_def by (rule scale_by_ext)
  then show ?thesis using b by (simp add: set_scale_ext)
qed

lemma toScale_ext: "toScale this sc h = Inr (q, h') \<Longrightarrow> extends h h'"
  by (auto simp: toScale_def toSmallestScale_ext toNormalScale_ext split: if_splits)

lemma toDecimalAtOriginalScale_ext:
  assumes "toDecimalAtOriginalScale input reference h = Inr (d, h')"
  shows "extends h h'"
proof (cases input)
  case (BigValObj p)
  then obtain q where "toScale p (v_scale (objs h ! reference)) h = Inr (q, h')"
    using assms by (auto simp: toDecimalAtOriginalScale_def elim!: bind_InrE)
  then show ?thesis by (rule toScale_ext)
qed (use assms in \<open>auto simp: toDecimalAtOriginalScale_def dest: toDecimal_ext\<close>)

lemma arith_ext:
  assumes "arith f this v h = Inr (q, h')"
  shows "extends h h' \<and> length (objs h) \<le> q \<and> q < length (objs h')"
proof -
  obtain d h1 where a: "toDecimalAtOriginalScale v this h = Inr (d, h1)"
    and b: "arith_dec f this d h1 = Inr (q, h')"
    using assms unfolding arith_def by (elim bind_InrE)
  have e: "extends h h1" using a by (rule toDecimalAtOriginalScale_ext)
  then show ?thesis using arith_dec_ext [OF b] extends_length [OF e] by (auto intro: extends_trans)
qed

lemma compare_ext:
  assumes "compare g this v h = Inr (b, h')"
  shows "extends h h'"
proof -
  obtain d h1 where a: "toDecimalAtOriginalScale v this h = Inr (d, h1)" and b: "h' = h1"
    using assms unfolding compare_def by (auto elim!: bind_InrE)
  then show ?thesis using toDecimalAtOriginalScale_ext by blast
qed

lemma extends_instance:
  assumes "extends h h'" "wf_heap h" "p < length (objs h)"
  shows "objs h' ! p = objs h ! p \<and> magnitude p h' = magnitude p h"
proof -
  have a: "objs h' ! p = objs h ! p" using extends_nth [OF assms(1)] assms(3) by blast
  have "v_n (objs h ! p) < length (decs h)" using assms(2,3) by (rule wf_heap_ref)
  then have "decs h' ! v_n (objs h ! p) = decs h ! v_n (objs h ! p)"
    using extends_nth [OF assms(1)] by blast
  then show ?thesis using a by (simp add: magnitude_def)
qed

text \<open>
  Claim C4. In a well-formed heap, when one of the closures \<open>add\<close>, \<open>sub\<close>, \<open>mul\<close>, \<open>div\<close> of
  an instance \<open>a\<close> returns for an operand \<open>b\<close>, every instance that existed before the call
  (the receiver \<open>a\<close>, and \<open>b\<close> when it is an instance) has the same magnitude, scale and
  config as before, and the result is an instance that did not exist before the call. When
  one of the closures \<open>gt\<close>, \<open>gte\<close>, \<open>lt\<close>, \<open>lte\<close>, \<open>eq\<close> returns, every instance is as
  before.
\<close>

theorem closures_leave_instances_unchanged:
  assumes "wf_heap h"
  shows "(op \<in> {add, sub, mul, div_op} \<and> op a b h = Inr (q, h') \<longrightarrow>
            (\<forall>p < length (objs h). objs h' ! p = objs h ! p \<and> magnitude p h' = magnitude p h) \<and>
            length (objs h) \<le> q \<and> q < length (objs h')) \<and>
         (cmp \<in> {gt, gte, lt, lte, eq} \<and> cmp a b h = Inr (t, h'') \<longrightarrow>
            (\<forall>p < length (objs h). objs h'' ! p = objs h ! p \<and> magnitude p h'' = magnitude p h))"
proof (intro conjI impI)
  assume "op \<in> {add, sub, mul, div_op} \<and> op a b h = Inr (q, h')"
  then obtain f where "arith f a b h = Inr (q, h')"
    by (auto simp: add_def sub_def mul_def div_op_def)
  then have e: "extends h h' \<and> length (objs h) \<le> q \<and> q < length (objs h')" by (rule arith_ext)
  then show "\<forall>p < length (objs h). objs h' ! p = objs h ! p \<and> magnitude p h' = magnitude p h"
    using extends_instance [OF _ assms] by blast
  show "length (objs h) \<le> q" "q < length (objs h')" using e by simp_all
next
  assume "cmp \<in> {gt, gte, lt, lte, eq} \<and> cmp a b h = Inr (t, h'')"
  then obtain g where "compare g a b h = Inr (t, h'')"
    by (auto simp: gt_def gte_def lt_def lte_def eq_def)
  then have "extends h h''" by (rule compare_ext)
  then show "\<forall>p < length (objs h). objs h'' ! p = objs h ! p \<and> magnitude p h'' = magnitude p h"
    using extends_instance [OF _ assms] by blast
qed

lemma toString_10: "toString p 10 h = Inr (dec_toString (magnitude p h))"
  by (simp add: toString_def magnitude_def)

lemma add_98_20: "dec_add (Fin False 98 0) (Fin False 2 1) = Fin False 118 0"
  by (simp add: engine_eval)

lemma toString_98_20_118:
  "dec_toString (Fin False 98 0) = ''98''" "dec_toString (Fin False 2 1) = ''20''"
  "dec_toString (Fin False 118 0) = ''118''"
  by (simp_all add: string_eval)

text \<open>
  Witness for C4, from the test suite: with \<open>a = construct(98)\<close> and \<open>b = construct(20)\<close>,
  \<open>a.add(b)\<close> prints as \<open>118\<close> and \<open>a\<close> and \<open>b\<close> still print as \<open>98\<close> and \<open>20\<close>.
\<close>

theorem closures_leave_instances_unchanged_witness:
  "returns (BigVal_new (Num 98) SMALLEST defaultConfig empty_heap) (\<lambda>a h0.
     returns (BigVal_new (Num 20) SMALLEST defaultConfig h0) (\<lambda>b h.
       wf_heap h \<and> toString a 10 h = Inr ''98'' \<and> toString b 10 h = Inr ''20'' \<and>
       returns (add a (BigValObj b) h) (\<lambda>q h'.
         q \<noteq> a \<and> q \<noteq> b \<and> toString q 10 h' = Inr ''118'' \<and>
         toString a 10 h' = Inr ''98'' \<and> toString b 10 h' = Inr ''20'' \<and>
         objs h' ! a = objs h ! a \<and> objs h' ! b = objs h ! b)))"
proof -
  define h0 where "h0 = (\<lparr>decs = [Fin False 98 0],
     objs = [\<lparr>v_n = 0, v_scale = SMALLEST, v_config = defaultConfig\<rparr>]\<rparr> :: BigValScale heap)"
  define h where "h = (\<lparr>decs = [Fin False 98 0, Fin False 2 1],
     objs = [\<lparr>v_n = 0, v_scale = SMALLEST, v_config = defaultConfig\<rparr>,
             \<lparr>v_n = 1, v_scale = SMALLEST, v_config = defaultConfig\<rparr>]\<rparr> :: BigValScale heap)"
  define h' where "h' = h\<lparr>decs := decs h @ [Fin False 118 0, Fin False 118 0],
     objs := objs h @ [\<lparr>v_n = 3, v_scale = SMALLEST, v_config = defaultConfig\<rparr>]\<rparr>"
  have mk: "mkDecimal False 98 0 = Fin False 98 0" "mkDecimal False 20 0 = Fin False 2 1"
    by (simp_all add: engine_eval)
  have new0: "BigVal_new (Num 98) SMALLEST defaultConfig empty_heap = Inr (0, h0)"
    using BigVal_new_Num [of 98 SMALLEST defaultConfig empty_heap] by (simp add: mk empty_heap_def h0_def)
  have new1: "BigVal_new (Num 20) SMALLEST defaultConfig h0 = Inr (1, h)"
    using BigVal_new_Num [of 20 SMALLEST defaultConfig h0] by (simp add: mk h0_def h_def)
  have wf: "wf_heap h" by (simp add: h_def wf_heap_def engine_eval)
  have m: "magnitude 0 h = Fin False 98 0" "magnitude 1 h = Fin False 2 1"
    by (simp_all add: h_def magnitude_def)
  have "toDecimalAtOriginalScale (BigValObj 1) 0 h = Inr (1, h)"
    by (simp add: toDecimalAtOriginalScale_def toScale_def toSmallestScale_def h_def bind_Inr)
  moreover have "arith_dec dec_add 0 1 h = Inr (2, h')"
  proof -
    have z: "dec_add (magnitude 0 h) (decs h ! 1) = Fin False 118 0"
      using add_98_20 by (simp add: h_def magnitude_def del: dec_add.simps)
    have "wf_dec (dec_add (magnitude 0 h) (decs h ! 1))" by (rule dec_add_wf)
    from arith_dec_ok [of dec_add 0 h 1, OF this]
    have "arith_dec dec_add 0 1 h =
         Inr (length (objs h),
              h\<lparr>decs := decs h @ [Fin False 118 0, unsignZero (Fin False 118 0)],
                objs := objs h @ [\<lparr>v_n = Suc (length (decs h)), v_scale = v_scale (objs h ! 0),
                                  v_config = v_config (objs h ! 0)\<rparr>]\<rparr>)"
      unfolding z .
    then show ?thesis by (simp add: h'_def) (simp add: h_def)
  qed
  ultimately have run: "add 0 (BigValObj 1) h = Inr (2, h')"
    by (simp add: add_def arith_def bind_Inr)
  have "add \<in> {add, sub, mul, div_op} \<and> add 0 (BigValObj 1) h = Inr (2, h')"
    using run by simp
  with closures_leave_instances_unchanged [OF wf, of add 0 "BigValObj 1" 2 h']
  have fr: "\<forall>p < length (objs h). objs h' ! p = objs h ! p \<and> magnitude p h' = magnitude p h"
    by blast
  have l: "0 < length (objs h)" "1 < length (objs h)" by (simp_all add: h_def)
  have keep: "objs h' ! 0 = objs h ! 0" "objs h' ! 1 = objs h ! 1"
    "magnitude 0 h' = magnitude 0 h" "magnitude 1 h' = magnitude 1 h"
    using fr l by blast+
  have res: "magnitude 2 h' = Fin False 118 0"
    by (simp add: h'_def h_def magnitude_def)
  have s: "toString 0 10 h = Inr ''98''" "toString 1 10 h = Inr ''20''"
    "toString 2 10 h' = Inr ''118''" "toString 0 10 h' = Inr ''98''" "toString 1 10 h' = Inr ''20''"
    by (simp_all only: toString_10 m res keep toString_98_20_118)
  have n: "(2::nat) \<noteq> 0" "(2::nat) \<noteq> 1" by simp_all
  show ?thesis
    unfolding new0 new1 returns_Inr run
    using wf s n keep(1,2) by (intro conjI)
qed

section \<open>Copies and the identity conversion: claims C7 and C8\<close>
lemma toString_unsignZero: "dec_toString (unsignZero d) = dec_toString d"
  by (cases d) auto

lemma BigVal_new_copy:
  assumes "wf_heap h" "s < length (objs h)"
  shows "BigVal_new (BigValObj s) sc cfg h =
         Inr (length (objs h),
              h\<lparr>decs := decs h @ [unsignZero (magnitude s h)],
                objs := objs h @ [\<lparr>v_n = length (decs h), v_scale = v_scale (objs h ! s),
                                  v_config = v_config (objs h ! s)\<rparr>]\<rparr>)"
proof -
  have r: "v_n (objs h ! s) < length (decs h)" using assms by (rule wf_heap_ref)
  have w: "wf_dec (decs h ! v_n (objs h ! s))"
    using wf_heap_magnitude [OF assms] by (simp add: magnitude_def)
  show ?thesis
    by (simp add: BigVal_new_def toDecimal_DecObj [OF r w] bind_Inr new_object_def magnitude_def)
qed

text \<open>
  Claim C7. Constructing from an instance \<open>s\<close> of a well-formed heap returns a new instance
  whose magnitude is held by a new engine object, referred to by no instance that existed
  before, with the value of the magnitude of \<open>s\<close> (a negative zero is copied as zero, which
  is the same number and prints the same), and with the scale and config of \<open>s\<close>; \<open>s\<close> is left as it was, and
  the scale and config passed to the constructor have no effect on the result.
\<close>

theorem construct_from_instance_copies:
  assumes "wf_heap h" "s < length (objs h)"
  shows "returns (BigVal_new (BigValObj s) scale config h) (\<lambda>q h'.
           q = length (objs h) \<and>
           v_n (objs h' ! q) = length (decs h) \<and>
           (\<forall>p < length (objs h). v_n (objs h' ! p) \<noteq> v_n (objs h' ! q)) \<and>
           magnitude q h' = unsignZero (magnitude s h) \<and>
           dec_toString (magnitude q h') = dec_toString (magnitude s h) \<and>
           v_scale (objs h' ! q) = v_scale (objs h ! s) \<and>
           v_config (objs h' ! q) = v_config (objs h ! s) \<and>
           objs h' ! s = objs h ! s \<and> magnitude s h' = magnitude s h) \<and>
         BigVal_new (BigValObj s) scale config h = BigVal_new (BigValObj s) scale' config' h"
proof -
  have r: "\<And>p. p < length (objs h) \<Longrightarrow> v_n (objs h ! p) < length (decs h)"
    using assms(1) by (rule wf_heap_ref)
  have "\<forall>p < length (objs h). v_n (objs h ! p) \<noteq> length (decs h)"
    using r by fastforce
  then show ?thesis
    using assms(2) r [OF assms(2)]
    by (simp add: BigVal_new_copy [OF assms] returns_Inr magnitude_def nth_append toString_unsignZero
        del: dec_toString.simps)
qed

text \<open>
  Witness for C7, from the test suite: a copy of \<open>construct(1, NORMAL)\<close> made with the
  default parameters is at \<open>NORMAL\<close> scale.
\<close>

theorem construct_from_instance_copies_witness:
  "returns (BigVal_new (Num 1) NORMAL defaultConfig empty_heap) (\<lambda>a h.
     wf_heap h \<and> a < length (objs h) \<and>
     returns (BigVal_new (BigValObj a) SMALLEST \<lparr>decimals = Some 2\<rparr> h) (\<lambda>b h'.
       b \<noteq> a \<and> v_n (objs h' ! b) \<noteq> v_n (objs h' ! a) \<and>
       magnitude b h' = Fin False 1 0 \<and> magnitude a h' = Fin False 1 0 \<and>
       v_scale (objs h' ! b) = NORMAL \<and> v_config (objs h' ! b) = defaultConfig))"
proof -
  define h where "h = (\<lparr>decs = [Fin False 1 0],
     objs = [\<lparr>v_n = 0, v_scale = NORMAL, v_config = defaultConfig\<rparr>]\<rparr> :: BigValScale heap)"
  have mk: "mkDecimal False (Suc 0) 0 = Fin False 1 0" by (simp add: engine_eval)
  have new: "BigVal_new (Num 1) NORMAL defaultConfig empty_heap = Inr (0, h)"
    using BigVal_new_Num [of 1 NORMAL defaultConfig empty_heap] by (simp add: mk empty_heap_def h_def)
  have hyp: "wf_heap h" "0 < length (objs h)"
    by (simp_all add: h_def wf_heap_def engine_eval)
  have m: "magnitude 0 h = Fin False 1 0" "v_scale (objs h ! 0) = NORMAL" "v_config (objs h ! 0) = defaultConfig"
    "length (objs h) = 1"
    by (simp_all add: h_def magnitude_def)
  from construct_from_instance_copies [OF hyp, of SMALLEST "\<lparr>decimals = Some 2\<rparr>"]
  have "returns (BigVal_new (BigValObj 0) SMALLEST \<lparr>decimals = Some 2\<rparr> h) (\<lambda>q h'.
           q = length (objs h) \<and>
           v_n (objs h' ! q) = length (decs h) \<and>
           (\<forall>p < length (objs h). v_n (objs h' ! p) \<noteq> v_n (objs h' ! q)) \<and>
           magnitude q h' = unsignZero (magnitude 0 h) \<and>
           dec_toString (magnitude q h') = dec_toString (magnitude 0 h) \<and>
           v_scale (objs h' ! q) = v_scale (objs h ! 0) \<and>
           v_config (objs h' ! q) = v_config (objs h ! 0) \<and>
           objs h' ! 0 = objs h ! 0 \<and> magnitude 0 h' = magnitude 0 h)"
    by blast
  then have "returns (BigVal_new (BigValObj 0) SMALLEST \<lparr>decimals = Some 2\<rparr> h) (\<lambda>b h'.
       b \<noteq> 0 \<and> v_n (objs h' ! b) \<noteq> v_n (objs h' ! 0) \<and>
       magnitude b h' = Fin False 1 0 \<and> magnitude 0 h' = Fin False 1 0 \<and>
       v_scale (objs h' ! b) = NORMAL \<and> v_config (objs h' ! b) = defaultConfig)"
    by (rule returns_mono) (use m hyp(2) in \<open>auto simp del: One_nat_def\<close>)
  then show ?thesis using hyp by (simp add: new returns_Inr)
qed

lemma returns_scale_of:
  "returns m (\<lambda>q h'. P q h' \<and> v_scale (objs h' ! q) = s) \<Longrightarrow> scale_of m = Inr s"
  by (cases m) (auto simp: returns_def scale_of_def)

text \<open>
  Claim C8, as amended. For an instance \<open>v\<close> whose scale is one of the two recognized tags,
  \<open>v.toScale(v.scale)\<close> returns an instance that equals \<open>v\<close> numerically: its magnitude is
  the magnitude of \<open>v\<close> and its scale is the scale of \<open>v\<close>; and \<open>toScale\<close> applied to a
  tag outside the two recognized values throws \<open>Unrecognized scale\<close>.
\<close>

theorem toScale_identity_and_rejection:
  "(v_scale (objs h ! v) = SMALLEST \<or> v_scale (objs h ! v) = NORMAL \<longrightarrow>
      returns (toOwnScale v h) (\<lambda>q h'.
        magnitude q h' = magnitude v h \<and> v_scale (objs h' ! q) = v_scale (objs h ! v))) \<and>
   (sc \<noteq> SMALLEST \<and> sc \<noteq> NORMAL \<longrightarrow> toScale v sc h = Inl UnrecognizedScale)"
  by (auto simp: toOwnScale_def toScale_def toSmallestScale_def toNormalScale_def returns_Inr)

text \<open>Witness for C8: the value 1 at \<open>NORMAL\<close> scale, and the tag 5.\<close>

theorem toScale_identity_and_rejection_witness:
  "magnitude_of (toOwnScale 0 \<lparr>decs = [Fin False 1 0],
      objs = [\<lparr>v_n = 0, v_scale = NORMAL, v_config = defaultConfig\<rparr>]\<rparr>) = Inr (Fin False 1 0) \<and>
   scale_of (toOwnScale 0 \<lparr>decs = [Fin False 1 0],
      objs = [\<lparr>v_n = 0, v_scale = NORMAL, v_config = defaultConfig\<rparr>]\<rparr>) = Inr NORMAL \<and>
   toScale 0 5 \<lparr>decs = [Fin False 1 0], objs = [\<lparr>v_n = 0, v_scale = NORMAL, v_config = defaultConfig\<rparr>]\<rparr> =
     Inl UnrecognizedScale"
proof -
  define h where "h = (\<lparr>decs = [Fin False 1 0],
     objs = [\<lparr>v_n = 0, v_scale = NORMAL, v_config = defaultConfig\<rparr>]\<rparr> :: BigValScale heap)"
  have m: "magnitude 0 h = Fin False 1 0" "v_scale (objs h ! 0) = NORMAL"
    by (simp_all add: h_def magnitude_def)
  have n: "(5::BigValScale) \<noteq> SMALLEST \<and> (5::BigValScale) \<noteq> NORMAL"
    by (simp add: SMALLEST_def NORMAL_def)
  from toScale_identity_and_rejection [of h 0 5]
  have r: "returns (toOwnScale 0 h) (\<lambda>q h'.
        magnitude q h' = Fin False 1 0 \<and> v_scale (objs h' ! q) = NORMAL)"
    and e: "toScale 0 5 h = Inl UnrecognizedScale"
    using n unfolding m by blast+
  have "magnitude_of (toOwnScale 0 h) = Inr (Fin False 1 0)"
    using r by (rule returns_magnitude_of)
  moreover have "scale_of (toOwnScale 0 h) = Inr NORMAL"
    using r by (rule returns_scale_of)
  ultimately show ?thesis using e unfolding h_def by (intro conjI)
qed

text \<open>
  Counterexample to C8 as stated: the constructor of \<open>index.ts\<close> stores the tag 5 without a
  check, and for that instance \<open>v.toScale(v.scale)\<close> throws, so no value equal to \<open>v\<close> is
  returned.
\<close>

theorem toScale_own_scale_counterexample:
  "scale_of (BigVal_new (Num 1) 5 defaultConfig empty_heap) = Inr 5 \<and>
   bind (BigVal_new (Num 1) 5 defaultConfig empty_heap) toOwnScale = Inl UnrecognizedScale"
proof -
  have "BigVal_new (Num 1) 5 defaultConfig empty_heap =
        Inr (0, \<lparr>decs = [mkDecimal False 1 0], objs = [\<lparr>v_n = 0, v_scale = 5, v_config = defaultConfig\<rparr>]\<rparr>)"
    using BigVal_new_Num [of 1 5 defaultConfig empty_heap] by (simp add: empty_heap_def)
  then show ?thesis
    by (simp add: scale_of_def bind_Inr toOwnScale_def toScale_def SMALLEST_def NORMAL_def)
qed

section \<open>Output in a base: claims C6 and C10\<close>
text \<open>
  Claim C6, as amended. \<open>toString(base)\<close> never throws: for every base other than 2 and 16
  it takes the default branch of its \<open>switch\<close> and returns the base-10 string of the
  magnitude, the same as \<open>toString(10)\<close>.
\<close>

theorem toString_other_base_is_decimal:
  "(base \<noteq> 2 \<and> base \<noteq> 16 \<longrightarrow>
      toString v base h = Inr (dec_toString (magnitude v h)) \<and> toString v base h = toString v 10 h) \<and>
   toString v base h \<noteq> Inl e"
  by (simp add: toString_def magnitude_def Let_def)

lemma arith_Num:
  assumes "wf_dec (f (magnitude this h) (mkDecimal False k 0))" "v_n (objs h ! this) < length (decs h)"
  shows "arith f this (Num (int k)) h =
         Inr (length (objs h),
              h\<lparr>decs := decs h @ [mkDecimal False k 0, f (magnitude this h) (mkDecimal False k 0),
                                  unsignZero (f (magnitude this h) (mkDecimal False k 0))],
                objs := objs h @ [\<lparr>v_n = length (decs h) + 2, v_scale = v_scale (objs h ! this),
                                  v_config = v_config (objs h ! this)\<rparr>]\<rparr>)"
proof -
  let ?h1 = "h\<lparr>decs := decs h @ [mkDecimal False k 0]\<rparr>"
  have m: "magnitude this ?h1 = magnitude this h"
    using assms(2) by (simp add: magnitude_def nth_append)
  have d: "decs ?h1 ! length (decs h) = mkDecimal False k 0" by simp
  have "wf_dec (f (magnitude this ?h1) (decs ?h1 ! length (decs h)))"
    unfolding m d by (rule assms(1))
  from arith_dec_ok [of f this ?h1 "length (decs h)", OF this]
  show ?thesis
    unfolding m d by (simp add: arith_def toDecimalAtOriginalScale_def toDecimal_Num bind_Inr)
qed

lemma div_98_20: "unsignZero (dec_div (Fin False 98 0) (mkDecimal False 20 0)) = Fin False 49 (- 1)"
  by (simp add: engine_eval)

lemma toString_4_9: "dec_toString (Fin False 49 (- 1)) = ''4.9''"
  by (simp add: string_eval)

lemma mk98: "mkDecimal False 98 0 = Fin False 98 0"
  by (simp add: engine_eval)

lemma div_scenario:
  "bind (BigVal_new (Num 98) SMALLEST defaultConfig empty_heap) (with_arg div_op (Num 20)) =
   Inr (1, \<lparr>decs = [Fin False 98 0, mkDecimal False 20 0, dec_div (Fin False 98 0) (mkDecimal False 20 0),
                    Fin False 49 (- 1)],
            objs = [\<lparr>v_n = 0, v_scale = SMALLEST, v_config = defaultConfig\<rparr>,
                    \<lparr>v_n = 3, v_scale = SMALLEST, v_config = defaultConfig\<rparr>]\<rparr>)"
proof -
  define h where "h = (\<lparr>decs = [Fin False 98 0],
     objs = [\<lparr>v_n = 0, v_scale = SMALLEST, v_config = defaultConfig\<rparr>]\<rparr> :: BigValScale heap)"
  have new: "BigVal_new (Num 98) SMALLEST defaultConfig empty_heap = Inr (0, h)"
    using BigVal_new_Num [of 98 SMALLEST defaultConfig empty_heap] by (simp add: mk98 empty_heap_def h_def)
  have m: "magnitude 0 h = Fin False 98 0" by (simp add: h_def magnitude_def)
  have "wf_dec (dec_div (magnitude 0 h) (mkDecimal False 20 0))" by (rule dec_div_wf)
  moreover have "v_n (objs h ! 0) < length (decs h)" by (simp add: h_def)
  ultimately have "arith dec_div 0 (Num (int 20)) h =
         Inr (length (objs h),
              h\<lparr>decs := decs h @ [mkDecimal False 20 0, dec_div (magnitude 0 h) (mkDecimal False 20 0),
                                  unsignZero (dec_div (magnitude 0 h) (mkDecimal False 20 0))],
                objs := objs h @ [\<lparr>v_n = length (decs h) + 2, v_scale = v_scale (objs h ! 0),
                                  v_config = v_config (objs h ! 0)\<rparr>]\<rparr>)"
    by (rule arith_Num)
  then have "div_op 0 (Num 20) h =
         Inr (1, \<lparr>decs = [Fin False 98 0, mkDecimal False 20 0, dec_div (Fin False 98 0) (mkDecimal False 20 0),
                    Fin False 49 (- 1)],
            objs = [\<lparr>v_n = 0, v_scale = SMALLEST, v_config = defaultConfig\<rparr>,
                    \<lparr>v_n = 3, v_scale = SMALLEST, v_config = defaultConfig\<rparr>]\<rparr>)"
    unfolding m div_98_20 div_op_def by (simp add: h_def)
  then show ?thesis by (simp add: new bind_Inr with_arg_def)
qed

text \<open>
  Witness for C6, from the test suite: \<open>construct(98).div(20).toString(3)\<close> is \<open>4.9\<close>.
\<close>

theorem toString_other_base_is_decimal_witness:
  "returns (bind (BigVal_new (Num 98) SMALLEST defaultConfig empty_heap) (with_arg div_op (Num 20)))
     (\<lambda>q h. toString q 3 h = Inr ''4.9'' \<and> toString q 3 h = toString q 10 h)"
proof -
  define H where "H = (\<lparr>decs = [Fin False 98 0, mkDecimal False 20 0, dec_div (Fin False 98 0) (mkDecimal False 20 0),
                    Fin False 49 (- 1)],
            objs = [\<lparr>v_n = 0, v_scale = SMALLEST, v_config = defaultConfig\<rparr>,
                    \<lparr>v_n = 3, v_scale = SMALLEST, v_config = defaultConfig\<rparr>]\<rparr> :: BigValScale heap)"
  have m: "magnitude 1 H = Fin False 49 (- 1)"
    by (simp add: magnitude_def H_def)
  have b: "(3::int) \<noteq> 2 \<and> (3::int) \<noteq> 16" by simp
  from toString_other_base_is_decimal [of 3 1 H] b
  have t: "toString 1 3 H = Inr (dec_toString (magnitude 1 H))" "toString 1 3 H = toString 1 10 H"
    by blast+
  have "toString 1 3 H = Inr ''4.9''"
    unfolding t(1) m toString_4_9 ..
  then show ?thesis
    unfolding div_scenario returns_Inr H_def [symmetric] using t(2) by (rule conjI)
qed

text \<open>
  Counterexample to C6 as stated: base 3 is none of 2, 10 and 16, and the call returns.
\<close>

theorem toString_base_3_counterexample:
  "string_of (bind (BigVal_new (Num 98) SMALLEST defaultConfig empty_heap) (with_arg div_op (Num 20))) 3 =
   Inr ''4.9''"
  unfolding div_scenario
  by (simp add: string_of_def toString_def toString_4_9 del: dec_toString.simps)

lemma numeral_char_not_minus: "numeral_char d \<noteq> CHR ''-''"
proof (cases "d < 16")
  case True
  have "length NUMERALS = 16" by (simp add: NUMERALS_def)
  then have "NUMERALS ! d \<in> set NUMERALS" using True by (intro nth_mem) simp
  moreover have "CHR ''-'' \<notin> set NUMERALS" by (simp add: NUMERALS_def)
  ultimately show ?thesis using True by (auto simp: numeral_char_def)
next
  case False
  then show ?thesis by (simp add: numeral_char_def)
qed

lemma positional_chars: "set (positional ds k) \<subseteq> set ds \<union> {CHR ''0'', CHR ''.''}"
  by (auto simp: positional_def dest: in_set_takeD in_set_dropD)

lemma baseBody_no_minus: "CHR ''-'' \<notin> set (baseBody b c e)"
proof (cases "c = 0")
  case True
  then show ?thesis by (simp add: baseBody_def)
next
  case False
  have "CHR ''-'' \<notin> set (positional (map numeral_char xs) k)" for xs k
  proof
    assume "CHR ''-'' \<in> set (positional (map numeral_char xs) k)"
    then have "CHR ''-'' \<in> set (map numeral_char xs) \<union> {CHR ''0'', CHR ''.''}"
      using positional_chars by blast
    then obtain x where "numeral_char x = CHR ''-''" by auto
    then show False using numeral_char_not_minus by blast
  qed
  then show ?thesis using False by (simp add: baseBody_def Let_def split: prod.splits)
qed

lemma toBinary_finite:
  "toBinary (Fin True c e) = ''-0b'' @ baseBody 2 c e" "toBinary (Fin False c e) = ''0b'' @ baseBody 2 c e"
  by (simp_all add: toBinary_def basePrefix_def)

text \<open>
  Claim C10, as amended. For an instance whose magnitude is finite with a negative sign,
  \<open>toString(2)\<close> returns the binary digits of the absolute value with no minus sign: the
  engine prints \<open>-0b\<close> in front of the digits it prints behind \<open>0b\<close> for the absolute
  value, and \<open>toString\<close> drops everything up to and including the first \<open>b\<close>.
\<close>

theorem toString_2_drops_sign:
  "magnitude v h = Fin True c e \<longrightarrow>
     toString v 2 h = Inr (baseBody 2 c e) \<and>
     toBinary (Fin True c e) = ''-0b'' @ baseBody 2 c e \<and>
     toBinary (Fin False c e) = ''0b'' @ baseBody 2 c e \<and>
     CHR ''-'' \<notin> set (baseBody 2 c e)"
  by (simp add: toString_def magnitude_def toBinary_finite substr_def baseBody_no_minus)

lemma body_1e2: "baseBody 2 1 2 = ''1100100''"
proof -
  have num: "1 * 10 ^ nat 2 = (100::nat)" by simp
  have den: "10 ^ nat (- 2) = (1::nat)" by simp
  have t: "length (digitsB 2 1) + precision + 1 = 22"
    by (simp add: digitsB.simps precision_def)
  have ds: "digitsB 2 ((100 * 2 ^ 22) div 1) =
            [1,1,0,0,1,0,0,0,0,0,0,0,0,0,0,0,0,0,0,0,0,0,0,0,0,0,0,0,0]"
    by (simp add: digitsB.simps)
  have m: "undigitsB 2 (take precision [1,1,0,0,1,0,0,0,0,0,0,0,0,0,0,0,0,0,0,0,0,0,0,0,0,0,0,0,0]) +
           (if 2 \<le> 2 * ([1,1,0,0,1,0,0,0,0,0,0,0,0,0,0,0,0,0,0,0,0,0,0,0,0,0,0,0,0::nat] ! precision) then 1 else 0) =
           (819200::nat)"
    by (simp add: undigitsB_def precision_def)
  have k: "int (length [1,1,0,0,1,0,0,0,0,0,0,0,0,0,0,0,0,0,0,0,0,0,0,0,0,0,0,0,0::nat]) - int precision - int 22 = - 13"
    by (simp add: precision_def)
  have st: "stripzB 2 819200 (- 13) = (25, 2)"
    by (simp add: stripzB.simps)
  have d25: "map numeral_char (digitsB 2 25) = ''11001''"
    by (simp add: digitsB.simps numeral_char_def NUMERALS_def)
  have p: "positional ''11001'' 2 = ''1100100''"
    by (simp add: positional_def eval_nat_numeral)
  show ?thesis
    unfolding baseBody_def Let_def num den t ds m k st by (simp add: d25 p)
qed

lemma parse_minus_100: "parseString ''-100'' = Inr (Fin True 1 2)"
  by (simp add: parse_eval engine_eval)

text \<open>Witness for C10: \<open>construct("-100").toString(2)\<close> is \<open>1100100\<close>.\<close>

theorem toString_2_drops_sign_witness:
  "returns (BigVal_new (Str ''-100'') SMALLEST defaultConfig empty_heap) (\<lambda>v h.
     magnitude v h = Fin True 1 2 \<and> toString v 2 h = Inr ''1100100'')"
proof -
  define H where "H = (\<lparr>decs = [Fin True 1 2],
     objs = [\<lparr>v_n = 0, v_scale = SMALLEST, v_config = defaultConfig\<rparr>]\<rparr> :: BigValScale heap)"
  have new: "BigVal_new (Str ''-100'') SMALLEST defaultConfig empty_heap = Inr (0, H)"
    using BigVal_new_Str_empty [OF parse_minus_100] by (simp add: H_def)
  have m: "magnitude 0 H = Fin True 1 2" by (simp add: H_def magnitude_def)
  with toString_2_drops_sign [of 0 H 1 2]
  have "toString 0 2 H = Inr (baseBody 2 1 2)" by blast
  then have "toString 0 2 H = Inr ''1100100''" unfolding body_1e2 .
  then show ?thesis unfolding new returns_Inr using m by blast
qed

text \<open>
  Counterexample to C10 as stated: the magnitude \<open>-Infinity\<close> is negative, the engine prints
  it as \<open>-Infinity\<close>, which has no \<open>b\<close>, and \<open>toString(2)\<close> returns it with its minus sign.
\<close>

theorem toString_2_minus_Infinity_counterexample:
  "magnitude_of (BigVal_new (Str ''-Infinity'') SMALLEST defaultConfig empty_heap) = Inr (Infinity True) \<and>
   string_of (BigVal_new (Str ''-Infinity'') SMALLEST defaultConfig empty_heap) 2 = Inr ''-Infinity''"
  unfolding BigVal_new_Str_empty [OF parse_minus_Infinity]
  by (simp add: magnitude_of_def magnitude_def string_of_def toString_def toBinary_def substr_def)

section \<open>The revision with named scales: claims C9 and C5\<close>

lemma BigVal_new_str_DecObj:
  assumes "r < length (decs h)" "wf_dec (decs h ! r)" "SCALE_truthy sc"
  shows "BigVal_new_str (DecObj r) sc cfg h =
         Inr (length (objs h),
              h\<lparr>decs := decs h @ [unsignZero (decs h ! r)],
                objs := objs h @ [\<lparr>v_n = length (decs h), v_scale = sc, v_config = cfg\<rparr>]\<rparr>)"
  using assms
  by (simp add: BigVal_new_str_def isBigVal_def toDecimal_DecObj bind_Inr assertValidScale_def new_object_def)

lemma BigVal_new_str_copy:
  assumes "v_n (objs h ! p) < length (decs h)" "wf_dec (magnitude p h)" "v_scale (objs h ! p) \<noteq> []"
  shows "BigVal_new_str (BigValObj p) sc cfg h =
         Inr (length (objs h),
              h\<lparr>decs := decs h @ [unsignZero (magnitude p h)],
                objs := objs h @ [\<lparr>v_n = length (decs h), v_scale = v_scale (objs h ! p),
                                  v_config = v_config (objs h ! p)\<rparr>]\<rparr>)"
  using assms
  by (simp add: BigVal_new_str_def isBigVal_def toDecimal_DecObj bind_Inr new_object_def magnitude_def)

lemma SCALE_truthy_names: "SCALE_truthy ''min''" "SCALE_truthy ''coins''"
  by (simp_all add: SCALE_truthy_def SCALE_def)


lemma arith_str_DecObj:
  assumes "p < length (decs h)" "wf_dec (decs h ! p)" "v_n (objs h ! this) < length (decs h)"
    and "wf_dec (f (magnitude this h) (unsignZero (decs h ! p)))" "SCALE_truthy (v_scale (objs h ! this))"
  shows "arith_str f this (DecObj p) h =
         Inr (length (objs h),
              h\<lparr>decs := decs h @ [unsignZero (decs h ! p),
                                  f (magnitude this h) (unsignZero (decs h ! p)),
                                  unsignZero (f (magnitude this h) (unsignZero (decs h ! p)))],
                objs := objs h @ [\<lparr>v_n = length (decs h) + 2, v_scale = v_scale (objs h ! this),
                                  v_config = v_config (objs h ! this)\<rparr>]\<rparr>)"
proof -
  let ?y = "unsignZero (decs h ! p)"
  let ?z = "f (magnitude this h) ?y"
  let ?h2 = "h\<lparr>decs := decs h @ [?y, ?z]\<rparr>"
  have m: "decs h ! v_n (objs h ! this) = magnitude this h" by (simp add: magnitude_def)
  have n: "BigVal_new_str (DecObj (Suc (length (decs h)))) (v_scale (objs h ! this)) (v_config (objs h ! this)) ?h2 =
         Inr (length (objs ?h2),
              ?h2\<lparr>decs := decs ?h2 @ [unsignZero (decs ?h2 ! Suc (length (decs h)))],
                objs := objs ?h2 @ [\<lparr>v_n = length (decs ?h2), v_scale = v_scale (objs h ! this),
                                    v_config = v_config (objs h ! this)\<rparr>]\<rparr>)"
    using assms(4,5) by (intro BigVal_new_str_DecObj) (simp_all add: nth_append)
  show ?thesis
    using assms(1,2,3) n
    by (simp add: arith_str_def toDecimal_DecObj bind_Inr new_Decimal_def nth_append m)
qed

lemma scale_by_pow_str:
  assumes "SCALE_truthy (v_scale (objs h ! this))" "v_n (objs h ! this) < length (decs h)"
    and "int D \<le> maxE"
  shows "bind (tenPow (Num (int D)) h) (\<lambda>p h1. arith_str dec_mul this (DecObj p) h1) =
         Inr (length (objs h),
              h\<lparr>decs := decs h @ [Fin False 1 1, mkDecimal False D 0, pow10 D, pow10 D,
                                  dec_mul (magnitude this h) (pow10 D),
                                  unsignZero (dec_mul (magnitude this h) (pow10 D))],
                objs := objs h @ [\<lparr>v_n = length (decs h) + 5, v_scale = v_scale (objs h ! this),
                                  v_config = v_config (objs h ! this)\<rparr>]\<rparr>)"
proof -
  let ?h1 = "h\<lparr>decs := decs h @ [Fin False 1 1, mkDecimal False D 0, pow10 D]\<rparr>"
  let ?p = "length (decs h) + 2"
  have p: "decs ?h1 ! ?p = pow10 D" by (simp add: nth_append)
  have m: "magnitude this ?h1 = magnitude this h"
    using assms(2) by (simp add: magnitude_def nth_append)
  have a: "?p < length (decs ?h1)" and b: "wf_dec (decs ?h1 ! ?p)"
    and c: "v_n (objs ?h1 ! this) < length (decs ?h1)"
    and d: "wf_dec (dec_mul (magnitude this ?h1) (unsignZero (decs ?h1 ! ?p)))"
    and e: "SCALE_truthy (v_scale (objs ?h1 ! this))"
    using assms(1,2) unfolding p by (simp_all add: pow10_wf dec_mul_wf)
  from arith_str_DecObj [of ?p ?h1 this dec_mul, OF a b c d e]
  show ?thesis
    unfolding p m by (simp add: tenPow_Num [OF assms(3)] bind_Inr unsignZero_pow10)
qed


















lemma BigVal_new_stores_scale:
  assumes "\<forall>p. s \<noteq> BigValObj p" "toDecimal s h = Inr (d, h1)"
  shows "BigVal_new s n cfg h =
         Inr (length (objs h1), h1\<lparr>objs := objs h1 @ [\<lparr>v_n = d, v_scale = n, v_config = cfg\<rparr>]\<rparr>)"
  using assms by (cases s) (simp_all add: BigVal_new_def bind_Inr new_object_def)

text \<open>
  Claim C5, as amended. In the revision with named scales, constructing from a source that
  is not an instance and that the engine reads, with a scale name that is not a property
  name of the \<open>SCALE\<close> object, throws \<open>Invalid scale\<close>; constructing from an instance
  performs no check of the scale parameter and takes the scale of the instance. The
  constructor of \<open>index.ts\<close>, whose scale is a numeric enum, performs no check: from a
  source that is not an instance and that the engine reads it stores the tag it is given.
\<close>

theorem scale_validation_on_construction:
  fixes h :: "string heap" and h0 :: "BigValScale heap"
  shows "(\<not> isBigVal s h \<and> toDecimal s h = Inr (d, h1) \<and> \<not> SCALE_truthy sc \<longrightarrow>
            BigVal_new_str s sc cfg h = Inl InvalidScale) \<and>
         (wf_heap h \<and> p < length (objs h) \<and> v_scale (objs h ! p) \<noteq> [] \<longrightarrow>
            returns (BigVal_new_str (BigValObj p) sc cfg h) (\<lambda>q h'. v_scale (objs h' ! q) = v_scale (objs h ! p))) \<and>
         ((\<forall>p. s0 \<noteq> BigValObj p) \<and> toDecimal s0 h0 = Inr (d0, h2) \<longrightarrow>
            returns (BigVal_new s0 n cfg h0) (\<lambda>q h'. v_scale (objs h' ! q) = n))"
proof (intro conjI impI)
  assume "\<not> isBigVal s h \<and> toDecimal s h = Inr (d, h1) \<and> \<not> SCALE_truthy sc"
  then show "BigVal_new_str s sc cfg h = Inl InvalidScale"
    by (simp add: BigVal_new_str_def bind_Inr assertValidScale_def)
next
  assume a: "wf_heap h \<and> p < length (objs h) \<and> v_scale (objs h ! p) \<noteq> []"
  then have "v_n (objs h ! p) < length (decs h)" "wf_dec (magnitude p h)"
    using wf_heap_ref wf_heap_magnitude by blast+
  from BigVal_new_str_copy [OF this] a
  show "returns (BigVal_new_str (BigValObj p) sc cfg h) (\<lambda>q h'. v_scale (objs h' ! q) = v_scale (objs h ! p))"
    by (simp add: returns_Inr)
next
  assume "(\<forall>p. s0 \<noteq> BigValObj p) \<and> toDecimal s0 h0 = Inr (d0, h2)"
  then show "returns (BigVal_new s0 n cfg h0) (\<lambda>q h'. v_scale (objs h' ! q) = n)"
    by (simp add: BigVal_new_stores_scale returns_Inr)
qed

lemma mk1: "mkDecimal False 1 0 = Fin False 1 0"
  by (simp add: engine_eval)

text \<open>
  Witness for C5: the scale name \<open>zzz\<close> is refused for the source 1 and ignored when the
  source is an instance at scale \<open>coins\<close>; the constructor of \<open>index.ts\<close> stores the tag 7.
\<close>

theorem scale_validation_on_construction_witness:
  "BigVal_new_str (Num 1) ''zzz'' defaultConfig empty_heap = Inl InvalidScale \<and>
   returns (BigVal_new_str (Num 1) ''coins'' defaultConfig empty_heap) (\<lambda>a h.
     returns (BigVal_new_str (BigValObj a) ''zzz'' defaultConfig h) (\<lambda>q h'. v_scale (objs h' ! q) = ''coins'')) \<and>
   returns (BigVal_new (Num 1) 7 defaultConfig empty_heap) (\<lambda>q h'. v_scale (objs h' ! q) = 7)"
proof -
  define H where "H = (\<lparr>decs = [Fin False 1 0],
     objs = [\<lparr>v_n = 0, v_scale = ''coins'', v_config = defaultConfig\<rparr>]\<rparr> :: string heap)"
  have td: "toDecimal (Num 1) (empty_heap :: string heap) = Inr (0, \<lparr>decs = [Fin False 1 0], objs = []\<rparr>)"
    using toDecimal_Num [of 1 "empty_heap :: string heap"] by (simp add: mk1 empty_heap_def del: One_nat_def)
  have td0: "toDecimal (Num 1) (empty_heap :: BigValScale heap) = Inr (0, \<lparr>decs = [Fin False 1 0], objs = []\<rparr>)"
    using toDecimal_Num [of 1 "empty_heap :: BigValScale heap"] by (simp add: mk1 empty_heap_def del: One_nat_def)
  have nb: "\<not> isBigVal (Num 1) (empty_heap :: string heap)" "\<not> SCALE_truthy ''zzz''"
    by (simp_all add: isBigVal_def SCALE_truthy_def SCALE_def objectPrototype_def)
  have new: "BigVal_new_str (Num 1) ''coins'' defaultConfig empty_heap = Inr (0, H)"
    by (simp add: BigVal_new_str_def nb(1) td bind_Inr assertValidScale_def SCALE_truthy_names
        new_object_def H_def)
  have wf: "wf_heap H \<and> 0 < length (objs H) \<and> v_scale (objs H ! 0) \<noteq> []"
    by (simp add: H_def wf_heap_def engine_eval)
  have ni: "\<forall>p. Num 1 \<noteq> BigValObj p" by simp
  note t = scale_validation_on_construction
  have a: "BigVal_new_str (Num 1) ''zzz'' defaultConfig empty_heap = Inl InvalidScale"
    using t [where s = "Num 1" and h = empty_heap and d = 0
        and ?h1.0 = "\<lparr>decs = [Fin False 1 0], objs = []\<rparr>" and sc = "''zzz''" and cfg = defaultConfig]
      nb td by blast
  have b: "returns (BigVal_new_str (BigValObj 0) ''zzz'' defaultConfig H) (\<lambda>q h'. v_scale (objs h' ! q) = ''coins'')"
    using t [where h = H and p = 0 and sc = "''zzz''" and cfg = defaultConfig] wf by (simp add: H_def)
  have c: "returns (BigVal_new (Num 1) 7 defaultConfig empty_heap) (\<lambda>q h'. v_scale (objs h' ! q) = 7)"
    using t [where ?s0.0 = "Num 1" and ?h0.0 = empty_heap and ?d0.0 = 0
        and ?h2.0 = "\<lparr>decs = [Fin False 1 0], objs = []\<rparr>" and n = 7 and cfg = defaultConfig]
      ni td0 by blast
  show ?thesis using a b c by (simp add: new returns_Inr)
qed

text \<open>
  Counterexample to C5 as stated: with the constructor of \<open>index.ts\<close>,
  \<open>construct(1, 7)\<close> returns an instance whose scale is 7.
\<close>

theorem construct_unrecognized_scale_counterexample:
  "scale_of (BigVal_new (Num 1) 7 defaultConfig empty_heap) = Inr 7"
  using BigVal_new_Num [of 1 7 defaultConfig empty_heap]
  by (simp add: scale_of_def empty_heap_def)

section \<open>Well-formed heaps are what the calls build\<close>

text \<open>The empty heap is well formed, and every call of \<open>index.ts\<close> modelled above that
  returns keeps the heap well formed: the hypothesis \<open>wf_heap\<close> of the theorems holds of
  every heap a program reaches.\<close>

lemma wf_heap_empty: "wf_heap empty_heap"
  by (simp add: wf_heap_def empty_heap_def)

lemma wf_heap_new_Decimal:
  assumes "wf_heap h" "wf_dec d" "new_Decimal d h = (r, h')"
  shows "wf_heap h' \<and> r < length (decs h') \<and> decs h' ! r = d \<and> objs h' = objs h"
  using assms by (auto simp: wf_heap_def new_Decimal_def list_all_iff less_SucI)

lemma wf_heap_toDecimal:
  assumes "wf_heap h" "toDecimal a h = Inr (r, h')"
  shows "wf_heap h' \<and> r < length (decs h') \<and> objs h' = objs h"
proof -
  obtain d where p: "parseString (stringify a h) = Inr d" and n: "new_Decimal d h = (r, h')"
    using assms(2) by (auto simp: toDecimal_def PreciseDecimal_def split: sum.splits)
  have "wf_dec d" using p by (rule parseString_wf)
  then show ?thesis using wf_heap_new_Decimal [OF assms(1) _ n] by simp
qed

lemma wf_heap_new_object:
  assumes "wf_heap h" "v_n v < length (decs h)" "new_object v h = (q, h')"
  shows "wf_heap h' \<and> q < length (objs h')"
  using assms by (auto simp: wf_heap_def new_object_def)

lemma wf_heap_BigVal_new:
  assumes "wf_heap h" "BigVal_new s sc cfg h = Inr (q, h')"
  shows "wf_heap h' \<and> q < length (objs h')"
proof -
  have step: "\<And>a v. bind (toDecimal a h) (\<lambda>d h1. Inr (new_object \<lparr>v_n = d, v_scale = fst (v h1), v_config = snd (v h1)\<rparr> h1)) = Inr (q, h') \<Longrightarrow>
    wf_heap h' \<and> q < length (objs h')"
  proof -
    fix a v
    assume "bind (toDecimal a h) (\<lambda>d h1. Inr (new_object \<lparr>v_n = d, v_scale = fst (v h1), v_config = snd (v h1)\<rparr> h1)) = Inr (q, h')"
    then obtain d h1 where t: "toDecimal a h = Inr (d, h1)"
      and n: "new_object \<lparr>v_n = d, v_scale = fst (v h1), v_config = snd (v h1)\<rparr> h1 = (q, h')"
      by (elim bind_InrE) auto
    have "wf_heap h1" "d < length (decs h1)" using wf_heap_toDecimal [OF assms(1) t] by simp_all
    then show "wf_heap h' \<and> q < length (objs h')"
      using wf_heap_new_object [OF _ _ n] by simp
  qed
  show ?thesis
  proof (cases s)
    case (BigValObj p)
    then show ?thesis
      using assms(2) step [of "DecObj (v_n (objs h ! p))" "\<lambda>h1. (v_scale (objs h1 ! p), v_config (objs h1 ! p))"]
      by (simp add: BigVal_new_def)
  qed (use assms(2) step [of s "\<lambda>h1. (sc, cfg)"] in \<open>simp_all add: BigVal_new_def\<close>)
qed

lemma wf_heap_arith_dec:
  assumes "wf_heap h" "\<And>x y. wf_dec (f x y)" "arith_dec f this d h = Inr (q, h')"
  shows "wf_heap h' \<and> q < length (objs h')"
proof -
  obtain r h1 where n: "new_Decimal (f (decs h ! v_n (objs h ! this)) (decs h ! d)) h = (r, h1)"
    by (cases "new_Decimal (f (decs h ! v_n (objs h ! this)) (decs h ! d)) h")
  then have b: "BigVal_new (DecObj r) (v_scale (objs h1 ! this)) (v_config (objs h1 ! this)) h1 = Inr (q, h')"
    using assms(3) by (simp add: arith_dec_def)
  have "wf_heap h1" using wf_heap_new_Decimal [OF assms(1) assms(2) n] by simp
  then show ?thesis using b by (rule wf_heap_BigVal_new)
qed

lemma wf_heap_arith_plain:
  assumes "wf_heap h" "\<And>x y. wf_dec (f x y)" "arith_plain f this v h = Inr (q, h')"
  shows "wf_heap h' \<and> q < length (objs h')"
proof -
  obtain d h1 where t: "toDecimal v h = Inr (d, h1)" and a: "arith_dec f this d h1 = Inr (q, h')"
    using assms(3) unfolding arith_plain_def by (rule bind_InrE)
  have "wf_heap h1" using wf_heap_toDecimal [OF assms(1) t] by simp
  then show ?thesis using assms(2) a by (rule wf_heap_arith_dec)
qed

lemma wf_heap_tenPow:
  assumes "wf_heap h" "tenPow v h = Inr (p, h')"
  shows "wf_heap h'"
proof -
  from assms(2) [unfolded tenPow_def]
  obtain t h1 where a: "toDecimal (Num 10) h = Inr (t, h1)"
    and b: "bind (toDecimal v h1) (\<lambda>y h2. case dec_pow10 (decs h2 ! y) of None \<Rightarrow> Inl Unmodelled
              | Some p \<Rightarrow> Inr (new_Decimal p h2)) = Inr (p, h')"
    by (rule bind_InrE)
  from b
  obtain y h2 where c: "toDecimal v h1 = Inr (y, h2)"
    and d: "(case dec_pow10 (decs h2 ! y) of None \<Rightarrow> Inl Unmodelled | Some p \<Rightarrow> Inr (new_Decimal p h2)) = Inr (p, h')"
    by (rule bind_InrE)
  obtain z where z: "dec_pow10 (decs h2 ! y) = Some z" "new_Decimal z h2 = (p, h')"
    using d by (auto split: option.splits)
  have "wf_heap h1" using wf_heap_toDecimal [OF assms(1) a] by simp
  then have "wf_heap h2" using wf_heap_toDecimal [OF _ c] by simp
  then show ?thesis using wf_heap_new_Decimal [OF _ dec_pow10_wf [OF z(1)] z(2)] by simp
qed

lemma wf_heap_set_scale: "wf_heap h \<Longrightarrow> wf_heap (set_scale n s h)"
proof -
  assume w: "wf_heap h"
  have "list_all (\<lambda>v. v_n v < length (decs h)) ((objs h)[n := (objs h ! n)\<lparr>v_scale := s\<rparr>])"
  proof (cases "n < length (objs h)")
    case True
    have "\<And>x. x \<in> set ((objs h)[n := (objs h ! n)\<lparr>v_scale := s\<rparr>]) \<Longrightarrow> v_n x < length (decs h)"
    proof -
      fix x assume "x \<in> set ((objs h)[n := (objs h ! n)\<lparr>v_scale := s\<rparr>])"
      then have "x \<in> insert ((objs h ! n)\<lparr>v_scale := s\<rparr>) (set (objs h))"
        using set_update_subset_insert by fastforce
      then show "v_n x < length (decs h)"
        using w True by (auto simp: wf_heap_def list_all_iff)
    qed
    then show ?thesis by (simp add: list_all_iff)
  next
    case False
    then have "(objs h)[n := (objs h ! n)\<lparr>v_scale := s\<rparr>] = objs h"
      by (simp add: list_update_beyond)
    then show ?thesis using w by (simp add: wf_heap_def)
  qed
  then show ?thesis using w by (simp add: wf_heap_def set_scale_def)
qed

lemma wf_heap_toScale:
  assumes "wf_heap h" "toScale this sc h = Inr (q, h')" "this < length (objs h)"
  shows "wf_heap h' \<and> q < length (objs h')"
proof -
  have conv: "\<And>f s. v_scale (objs h ! this) \<noteq> s \<Longrightarrow> (\<And>x y. wf_dec (f x y)) \<Longrightarrow>
      bind (bind (tenPow (decimalsOf (v_config (objs h ! this))) h) (\<lambda>p h1. arith_plain f this (DecObj p) h1))
        (\<lambda>n h1. Inr (n, set_scale n s h1)) = Inr (q, h') \<Longrightarrow> wf_heap h' \<and> q < length (objs h')"
  proof -
    fix f :: "Decimal \<Rightarrow> Decimal \<Rightarrow> Decimal" and s
    assume f: "\<And>x y. wf_dec (f x y)"
    assume "bind (bind (tenPow (decimalsOf (v_config (objs h ! this))) h) (\<lambda>p h1. arith_plain f this (DecObj p) h1))
        (\<lambda>n h1. Inr (n, set_scale n s h1)) = Inr (q, h')"
    then obtain n h2 where a: "bind (tenPow (decimalsOf (v_config (objs h ! this))) h)
         (\<lambda>p h1. arith_plain f this (DecObj p) h1) = Inr (n, h2)"
      and b0: "Inr (n, set_scale n s h2) = (Inr (q, h') :: error + nat \<times> BigValScale heap)"
      by (rule bind_InrE)
    have b: "q = n" "h' = set_scale n s h2" using b0 by auto
    from a obtain p h1 where c: "tenPow (decimalsOf (v_config (objs h ! this))) h = Inr (p, h1)"
      and d: "arith_plain f this (DecObj p) h1 = Inr (n, h2)"
      by (rule bind_InrE)
    have "wf_heap h1" using assms(1) c by (rule wf_heap_tenPow)
    then have "wf_heap h2 \<and> n < length (objs h2)" using f d by (rule wf_heap_arith_plain)
    then show "wf_heap h' \<and> q < length (objs h')"
      using b by (simp add: wf_heap_set_scale) (simp add: set_scale_def)
  qed
  show ?thesis
  proof (cases "v_scale (objs h ! this) = sc")
    case True
    then show ?thesis
      using assms by (auto simp: toScale_def toSmallestScale_def toNormalScale_def split: if_splits)
  next
    case False
    show ?thesis
    proof (cases "sc = SMALLEST")
      case True
      then show ?thesis
        using assms(2) False conv [of SMALLEST dec_mul]
        by (simp add: toScale_def toSmallestScale_def scaleDown_def dec_mul_wf)
    next
      case nS: False
      then show ?thesis
        using assms(2) False conv [of NORMAL dec_div]
        by (simp add: toScale_def toNormalScale_def scaleUp_def dec_div_wf split: if_splits)
    qed
  qed
qed

lemma wf_heap_arith:
  assumes "wf_heap h" "this < length (objs h)" "\<And>x y. wf_dec (f x y)" "arith f this v h = Inr (q, h')"
    and "\<And>p. v = BigValObj p \<Longrightarrow> p < length (objs h)"
  shows "wf_heap h' \<and> q < length (objs h')"
proof -
  obtain d h1 where a: "toDecimalAtOriginalScale v this h = Inr (d, h1)"
    and b: "arith_dec f this d h1 = Inr (q, h')"
    using assms(4) unfolding arith_def by (rule bind_InrE)
  have "wf_heap h1"
  proof (cases v)
    case (BigValObj p)
    then obtain q1 where "toScale p (v_scale (objs h ! this)) h = Inr (q1, h1)"
      using a by (auto simp: toDecimalAtOriginalScale_def elim!: bind_InrE)
    then show ?thesis using wf_heap_toScale [OF assms(1)] assms(5) BigValObj by blast
  qed (use a assms(1) in \<open>auto simp: toDecimalAtOriginalScale_def dest: wf_heap_toDecimal\<close>)
  then show ?thesis using assms(3) b by (rule wf_heap_arith_dec)
qed

section \<open>The scale tag of the intermediate revision\<close>

text \<open>In the intermediate revision, converting an instance at scale \<open>coins\<close> to the
  smallest scale multiplies the magnitude and leaves the tag \<open>coins\<close> on the result;
  \<open>index.ts\<close> and the later revision tag the result with the smallest scale.\<close>

lemma toMinScale_rev_keeps_coins:
  assumes "v_scale (objs h ! this) = ''coins''" "v_n (objs h ! this) < length (decs h)"
    and "decimals (v_config (objs h ! this)) = Some D" "int D \<le> maxE"
  shows "returns (toMinScale_rev this h) (\<lambda>q h'.
           v_scale (objs h' ! q) = ''coins'' \<and>
           magnitude q h' = unsignZero (dec_mul (magnitude this h) (pow10 D)))"
proof -
  have t: "SCALE_truthy (v_scale (objs h ! this))" using assms(1) by (simp add: SCALE_truthy_names)
  have "toMinScale_rev this h =
        bind (bind (tenPow (Num (int D)) h) (\<lambda>p h1. arith_str dec_mul this (DecObj p) h1))
          (\<lambda>n h2. Inr (n, set_scale n ''coins'' h2))"
    using assms(1,3)
    by (simp add: toMinScale_rev_def decimalsOf_def bind_assoc)
  then show ?thesis
    unfolding scale_by_pow_str [OF t assms(2,4)]
    by (simp add: bind_Inr returns_Inr set_scale_def magnitude_def nth_append)
qed

end
